theory Spec2Isabelle
  imports
    Main
    "HOL-Library.Word"
    "HOL-Library.Char_ord"
    "HOL-Library.List_Lexorder"
    "HOL-Library.AList"
    "HOL-Library.Multiset"
begin

unbundle bit_operations_syntax

section \<open>Failures\<close>

text \<open>
  The renderer reports programming errors through \<^verbatim>\<open>assert\<close> and environmental
  errors through \<^verbatim>\<open>throw std::runtime_error\<close>.  Every operation of the model
  returns \<open>error + result\<close>, with \<open>Inl\<close> for the failure that stops the call.
  \<open>InvalidHandle\<close> is the failure of a registry lookup; \<open>DivisionByZero\<close> (the
  \<^verbatim>\<open>%\<close> by a zero ring-buffer size) and \<open>OutOfBounds\<close> (an index outside a
  \<^verbatim>\<open>std::vector\<close> or an array) are undefined behaviour of the source.
\<close>

datatype error = AssertionFailed | InvalidHandle | DivisionByZero | OutOfBounds | RuntimeError

section \<open>Ring buffer allocator (RendererCommon.cpp, ringBufferAllocate)\<close>

type_synonym uint = "32 word"

record ring_state =
  ringBufSize :: uint
  ringBufPtr :: uint
  lastSyncedRingBufPtr :: uint

text \<open>
  Modelled from the spec: \<^verbatim>\<open>isPow2\<close> of utils/Utils.h is not part of the sources;
  the spec says the alignment "is a power of two".
\<close>

definition isPow2 :: "uint \<Rightarrow> bool" where
  "isPow2 v = (v \<in> set (map (\<lambda>k. 2 ^ k) [0..<32]))"

text \<open>
  Modelled from the spec: \<^verbatim>\<open>nextPow2\<close> of utils/Utils.h is not part of the sources;
  the spec says the buffer is "grown to the next power of two \<ge> size".  The search
  doubles from 1; a result of \<open>2 ^ 32\<close> does not fit the \<^verbatim>\<open>unsigned int\<close> and
  wraps to 0.
\<close>

fun nextPow2_from :: "nat \<Rightarrow> nat \<Rightarrow> nat \<Rightarrow> nat" where
  "nextPow2_from 0 p n = p"
| "nextPow2_from (Suc fuel) p n = (if n \<le> p then p else nextPow2_from fuel (2 * p) n)"

definition nextPow2 :: "uint \<Rightarrow> uint" where
  "nextPow2 v = of_nat (nextPow2_from 32 1 (unat v))"

text \<open>
  Modelled from the spec: \<^verbatim>\<open>recreateRingBuffer\<close> is declared in a header that is not
  part of the sources.  The spec says the buffer is reallocated with the new capacity and
  "the cursor reset to 0"; the caller asserts \<^verbatim>\<open>ringBufPtr == 0\<close> after the call.
  The new buffer holds no data of an earlier frame, so the synchronised cursor restarts
  at 0 as well.
\<close>

definition recreateRingBuffer :: "uint \<Rightarrow> 'a ring_state_scheme \<Rightarrow> 'a ring_state_scheme" where
  "recreateRingBuffer newSize s =
     s\<lparr>ringBufSize := newSize, ringBufPtr := 0, lastSyncedRingBufPtr := 0\<rparr>"

text \<open>
  The second half of \<^verbatim>\<open>ringBufferAllocate\<close>: the check for running into data that
  the GPU has not consumed yet, with the doubling of the buffer.
  \<open>alignedPtr\<close> and \<open>beginPtr\<close> are the locals of the source at that point.
\<close>

definition ringBufferFinish ::
  "uint \<Rightarrow> uint \<Rightarrow> uint \<Rightarrow> 'a ring_state_scheme \<Rightarrow> error + (uint \<times> 'a ring_state_scheme)" where
  "ringBufferFinish sz alignedPtr beginPtr s =
     (let s1 = s\<lparr>ringBufPtr := alignedPtr + sz\<rparr> in
      if ringBufPtr s1 \<ge> lastSyncedRingBufPtr s1 + ringBufSize s1 then
        (let newSize = ringBufSize s1 * 2 in
         if \<not> sz < newSize then Inl AssertionFailed
         else
           (let s2 = recreateRingBuffer newSize s1 in
            if ringBufPtr s2 \<noteq> 0 then Inl AssertionFailed
            else Inr (0, s2\<lparr>ringBufPtr := sz\<rparr>)))
      else Inr (beginPtr, s1))"

definition ringBufferAllocate ::
  "uint \<Rightarrow> uint \<Rightarrow> 'a ring_state_scheme \<Rightarrow> error + (uint \<times> 'a ring_state_scheme)" where
  "ringBufferAllocate sz alignment s0 =
     (if alignment = 0 then Inl AssertionFailed
      else if \<not> isPow2 alignment then Inl AssertionFailed
      else
        (let s = (if sz > ringBufSize s0 then recreateRingBuffer (nextPow2 sz) s0 else s0) in
         if sz > ringBufSize s0 \<and> ringBufPtr s \<noteq> 0 then Inl AssertionFailed
         else
           (let add = alignment - 1;
                mask = NOT add;
                alignedPtr = (ringBufPtr s + add) AND mask
            in
            if \<not> ringBufPtr s \<le> alignedPtr then Inl AssertionFailed
            else if ringBufSize s = 0 then Inl DivisionByZero
            else
              (let beginPtr = alignedPtr mod ringBufSize s in
               if beginPtr + sz \<ge> ringBufSize s then
                 (let s' = s\<lparr>ringBufPtr := (ringBufPtr s div ringBufSize s + 1) * ringBufSize s\<rparr> in
                  if (ringBufPtr s' AND NOT mask) \<noteq> 0 then Inl AssertionFailed
                  else
                    (let alignedPtr' = (ringBufPtr s' + add) AND mask;
                         beginPtr' = alignedPtr' mod ringBufSize s'
                     in
                     if \<not> beginPtr' + sz < ringBufSize s' then Inl AssertionFailed
                     else if beginPtr' \<noteq> 0 then Inl AssertionFailed
                     else ringBufferFinish sz alignedPtr' beginPtr' s'))
               else ringBufferFinish sz alignedPtr beginPtr s))))"

text \<open>
  A sequence of calls, in order, stopping at the first failure.  Each request is
  \<open>(size, alignment)\<close>; each result is the returned offset with the capacity of the
  buffer right after that call, which is the buffer the offset points into.
\<close>

fun ringBufferAllocateAll ::
  "(uint \<times> uint) list \<Rightarrow> 'a ring_state_scheme \<Rightarrow> error + ((uint \<times> uint) list \<times> 'a ring_state_scheme)" where
  "ringBufferAllocateAll [] s = Inr ([], s)"
| "ringBufferAllocateAll ((sz, alignment) # reqs) s =
     (case ringBufferAllocate sz alignment s of
        Inl e \<Rightarrow> Inl e
      | Inr (beginPtr, s1) \<Rightarrow>
          (case ringBufferAllocateAll reqs s1 of
             Inl e \<Rightarrow> Inl e
           | Inr (outs, s2) \<Rightarrow> Inr ((beginPtr, ringBufSize s1) # outs, s2)))"

text \<open>
  The offset is a multiple of the alignment, and \<open>[beginPtr, beginPtr + size)\<close> lies
  within \<open>[0, capacity)\<close>.  The sums are sums of natural numbers: they do not wrap.
\<close>

definition allocation_ok :: "uint \<times> uint \<Rightarrow> uint \<times> uint \<Rightarrow> bool" where
  "allocation_ok req out =
     (case req of (sz, alignment) \<Rightarrow> case out of (beginPtr, capacity) \<Rightarrow>
        unat alignment dvd unat beginPtr \<and> unat beginPtr + unat sz \<le> unat capacity)"

section \<open>Shader cache records (RendererCommon.cpp, CacheData)\<close>

type_synonym uint64 = "64 word"

text \<open>\<^verbatim>\<open>const unsigned int shaderVersion = 20;\<close>\<close>

definition shaderVersion :: uint where
  "shaderVersion = 20"

record CacheData =
  version :: uint
  hash :: uint64
  dependencies :: "string list"

text \<open>The default constructor: \<^verbatim>\<open>version(0), hash(0)\<close> and no dependencies.\<close>

definition CacheData_default :: CacheData where
  "CacheData_default = \<lparr>version = 0, hash = 0, dependencies = []\<rparr>"

subsection \<open>The C library calls used by parse and serialize\<close>

text \<open>\<^verbatim>\<open>operator<<\<close> on an unsigned integer: decimal, and hexadecimal (lower case, no
  prefix) after \<^verbatim>\<open>std::hex\<close>.\<close>

definition digitChar :: "nat \<Rightarrow> char" where
  "digitChar d = (if d < 10 then char_of (48 + d) else char_of (87 + d))"

fun showDec :: "nat \<Rightarrow> string" where
  "showDec n = (if n < 10 then [digitChar n] else showDec (n div 10) @ [digitChar (n mod 10)])"

fun showHex :: "nat \<Rightarrow> string" where
  "showHex n = (if n < 16 then [digitChar n] else showHex (n div 16) @ [digitChar (n mod 16)])"

declare showDec.simps [simp del]
declare showHex.simps [simp del]

text \<open>\<^verbatim>\<open>isspace\<close>, \<^verbatim>\<open>isdigit\<close> and \<^verbatim>\<open>isxdigit\<close> of the C locale, and the value of a digit.\<close>

definition isspace :: "char \<Rightarrow> bool" where
  "isspace c = (c = CHR '' '' \<or> (9 \<le> (of_char c :: nat) \<and> (of_char c :: nat) \<le> 13))"

definition isdigit :: "char \<Rightarrow> bool" where
  "isdigit c = (48 \<le> (of_char c :: nat) \<and> (of_char c :: nat) \<le> 57)"

definition isxdigit :: "char \<Rightarrow> bool" where
  "isxdigit c = (isdigit c \<or> (97 \<le> (of_char c :: nat) \<and> (of_char c :: nat) \<le> 102)
                           \<or> (65 \<le> (of_char c :: nat) \<and> (of_char c :: nat) \<le> 70))"

definition digitVal :: "char \<Rightarrow> nat" where
  "digitVal c = (if isdigit c then of_char c - 48
                 else if 97 \<le> (of_char c :: nat) then of_char c - 87
                 else of_char c - 55)"

text \<open>\<^verbatim>\<open>std::string::c_str()\<close> read as a C string: the characters before the first NUL.\<close>

definition c_str :: "string \<Rightarrow> string" where
  "c_str s = takeWhile (\<lambda>c. c \<noteq> CHR 0x00) s"

text \<open>The optional sign that \<^verbatim>\<open>atoi\<close> and \<^verbatim>\<open>strtoull\<close> accept after the white space.\<close>

definition isNegative :: "string \<Rightarrow> bool" where
  "isNegative s = (case s of [] \<Rightarrow> False | c # _ \<Rightarrow> c = CHR ''-'')"

definition skipSign :: "string \<Rightarrow> string" where
  "skipSign s = (case s of [] \<Rightarrow> [] | c # r \<Rightarrow> if c = CHR ''-'' \<or> c = CHR ''+'' then r else s)"

text \<open>
  \<^verbatim>\<open>atoi\<close>: white space, an optional sign, decimal digits; anything after them is
  ignored and no digits give 0.  A value that does not fit is undefined in C; the C
  library in use (glibc) computes \<^verbatim>\<open>(int) strtol(s, NULL, 10)\<close>, where
  \<^verbatim>\<open>strtol\<close> saturates at \<^verbatim>\<open>LONG_MIN\<close> and \<^verbatim>\<open>LONG_MAX\<close> (64 bits) and the
  conversion to \<^verbatim>\<open>int\<close> keeps the low 32 bits, read as a signed number.
\<close>

definition atoi :: "string \<Rightarrow> int" where
  "atoi s =
     (let s1 = dropWhile isspace s;
          ds = takeWhile isdigit (skipSign s1);
          v = foldl (\<lambda>a c. 10 * a + int (digitVal c)) 0 ds;
          l = max (- (2 ^ 63)) (min (2 ^ 63 - 1) (if isNegative s1 then - v else v))
      in sint (word_of_int l :: 32 word))"

text \<open>
  \<^verbatim>\<open>std::stoull(str, nullptr, 16)\<close>: white space, an optional sign, an optional
  \<^verbatim>\<open>0x\<close> or \<^verbatim>\<open>0X\<close> in front of a hexadecimal digit, hexadecimal digits.  It throws
  \<^verbatim>\<open>std::invalid_argument\<close> when there is no digit and \<^verbatim>\<open>std::out_of_range\<close> when the
  value does not fit 64 bits; both are \<open>None\<close> here, since the caller catches everything.
  A minus sign negates the value modulo \<open>2 ^ 64\<close>.
\<close>

definition skipHexPrefix :: "string \<Rightarrow> string" where
  "skipHexPrefix s =
     (case s of
        c0 # cx # d # r \<Rightarrow>
          if c0 = CHR ''0'' \<and> (cx = CHR ''x'' \<or> cx = CHR ''X'') \<and> isxdigit d then d # r else s
      | _ \<Rightarrow> s)"

definition stoull16 :: "string \<Rightarrow> uint64 option" where
  "stoull16 s =
     (let s1 = dropWhile isspace s;
          ds = takeWhile isxdigit (skipHexPrefix (skipSign s1));
          v = foldl (\<lambda>a c. 16 * a + int (digitVal c)) 0 ds
      in if ds = [] then None
         else if v \<ge> 2 ^ 64 then None
         else Some (if isNegative s1 then - word_of_int v else word_of_int v))"

text \<open>
  \<^verbatim>\<open>boost::algorithm::split\<close> with the predicate \<^verbatim>\<open>c == ','\<close> and the default
  \<^verbatim>\<open>token_compress_off\<close>: one field per delimiter plus one, empty fields kept.
\<close>

fun split_comma :: "string \<Rightarrow> string list" where
  "split_comma [] = [[]]"
| "split_comma (c # cs) =
     (if c = CHR '','' then [] # split_comma cs
      else (case split_comma cs of [] \<Rightarrow> [[c]] | f # fs \<Rightarrow> (c # f) # fs))"

subsection \<open>CacheData::parse and CacheData::serialize\<close>

definition parse :: "string \<Rightarrow> CacheData" where
  "parse cacheStr =
     (let split = split_comma cacheStr;
          cacheData = CacheData_default
      in if length split < 2 then cacheData
         else
           (let cacheData = cacheData\<lparr>version := word_of_int (atoi (c_str (split ! 0)))\<rparr> in
            if version cacheData \<noteq> shaderVersion then cacheData
            else
              (case stoull16 (c_str (split ! 1)) of
                 None \<Rightarrow> cacheData\<lparr>version := 0\<rparr>
               | Some h \<Rightarrow>
                   (let cacheData = cacheData\<lparr>hash := h\<rparr> in
                    if length split \<ge> 3
                    then cacheData\<lparr>dependencies := dependencies cacheData @ drop 2 split\<rparr>
                    else cacheData))))"

definition serialize :: "CacheData \<Rightarrow> string" where
  "serialize c =
     showDec (unat (version c)) @ '','' @ showHex (unat (hash c)) @
     concat (map (\<lambda>f. '','' @ f) (dependencies c))"

text \<open>The characters that \<open>showHex\<close> produces: digits and lower-case \<open>a\<close> to \<open>f\<close>.\<close>

definition plainHex :: "char \<Rightarrow> bool" where
  "plainHex c = ((48 \<le> (of_char c :: nat) \<and> (of_char c :: nat) \<le> 57) \<or>
                 (97 \<le> (of_char c :: nat) \<and> (of_char c :: nat) \<le> 102))"


section \<open>Shader names in the cache (RendererCommon.cpp, compileSpirv)\<close>

text \<open>
  \<^verbatim>\<open>ShaderMacros\<close> is declared in a header that is not part of the sources; the spec
  calls it a mapping of macro name to optional value, and \<^verbatim>\<open>compileSpirv\<close> reads it
  as pairs \<^verbatim>\<open>(first, second)\<close> of strings, an empty \<^verbatim>\<open>second\<close> meaning no value.
  It is modelled by the list of its entries, in the order the loop visits them.
\<close>

type_synonym ShaderMacros = "(string \<times> string) list"

text \<open>The body of the first loop: the string pushed to \<^verbatim>\<open>sorted\<close> for one macro.\<close>

definition macroString :: "string \<times> string \<Rightarrow> string" where
  "macroString macro =
     (let s = fst macro in
      if snd macro \<noteq> [] then s @ ''='' @ snd macro else s)"

text \<open>
  The local \<^verbatim>\<open>shaderName\<close> of \<^verbatim>\<open>compileSpirv\<close> when the cache is consulted:
  \<^verbatim>\<open>std::sort\<close> orders the strings by \<^verbatim>\<open>operator<\<close>, lexicographically on unsigned
  characters, and the second loop appends \<^verbatim>\<open>"_" + s\<close> for each of them.
\<close>

definition shaderName :: "string \<Rightarrow> ShaderMacros \<Rightarrow> string" where
  "shaderName name macros =
     foldl (\<lambda>shaderName s. shaderName @ ''_'' @ s) name (sort (map macroString macros))"

text \<open>A macro without the separators of the name: no \<open>_\<close> or \<open>=\<close> in its name, no
  \<open>_\<close> in its value.\<close>

definition plainMacro :: "string \<times> string \<Rightarrow> bool" where
  "plainMacro macro =
     (CHR ''_'' \<notin> set (fst macro) \<and> CHR ''='' \<notin> set (fst macro) \<and> CHR ''_'' \<notin> set (snd macro))"


section \<open>Shader cache lookup (RendererCommon.cpp, loadCachedSPV)\<close>

text \<open>
  \<^verbatim>\<open>fileExists\<close>, \<^verbatim>\<open>getFileTimestamp\<close> and \<^verbatim>\<open>readFile\<close> of utils/Utils.h are not
  part of the sources: the file system is a parameter, seen through these three
  functions.  Time stamps are \<^verbatim>\<open>int64_t\<close>; only their order is used.
\<close>

record FileSystem =
  fileExists :: "string \<Rightarrow> bool"
  getFileTimestamp :: "string \<Rightarrow> int"
  readFile :: "string \<Rightarrow> string"

text \<open>
  \<^verbatim>\<open>snprintf(buffer, sizeof(buffer), "%08" PRIx64, hash)\<close> with \<^verbatim>\<open>char buffer[9]\<close>:
  the hash in hexadecimal, padded with zeros to eight digits, cut after eight characters.
\<close>

definition hashFileName :: "uint64 \<Rightarrow> string" where
  "hashFileName h =
     (let digits = showHex (unat h) in
      take 8 (replicate (8 - length digits) (CHR ''0'') @ digits))"

text \<open>
  \<open>None\<close> is the return value \<^verbatim>\<open>false\<close>, which leaves \<^verbatim>\<open>spirv\<close> as it was;
  \<open>Some temp\<close> is \<^verbatim>\<open>true\<close>, with the bytes copied into \<^verbatim>\<open>spirv\<close>.
\<close>

definition loadCachedSPV :: "FileSystem \<Rightarrow> string \<Rightarrow> string \<Rightarrow> string \<Rightarrow> string option" where
  "loadCachedSPV fs spirvCacheDir name shaderName' =
     (let cacheName = spirvCacheDir @ shaderName' @ ''.cache'' in
      if \<not> fileExists fs cacheName then None
      else
        (let cacheData = parse (readFile fs cacheName) in
         if version cacheData \<noteq> shaderVersion then None
         else
           (let spvName = spirvCacheDir @ hashFileName (hash cacheData) @ ''.spv'' in
            if \<not> fileExists fs spvName then None
            else
              (let sourceTime = getFileTimestamp fs name;
                   cacheTime = getFileTimestamp fs cacheName
               in
               if sourceTime > cacheTime then None
               else if \<exists>filename \<in> set (dependencies cacheData).
                         getFileTimestamp fs filename > cacheTime then None
               else
                 (let temp = readFile fs spvName in
                  if length temp mod 4 \<noteq> 0 then None
                  else Some temp)))))"

text \<open>The cache record that \<^verbatim>\<open>loadCachedSPV\<close> parses for a shader name.\<close>

definition cacheRecordOf :: "FileSystem \<Rightarrow> string \<Rightarrow> string \<Rightarrow> CacheData" where
  "cacheRecordOf fs spirvCacheDir shaderName' = parse (readFile fs (spirvCacheDir @ shaderName' @ ''.cache''))"

text \<open>
  A small file system for examples: the cache record \<^verbatim>\<open>c/s.frag_A.cache\<close> with the
  given contents and time stamp 100, the binary \<^verbatim>\<open>c/0000001f.spv\<close> if present, the
  source \<^verbatim>\<open>s.frag\<close> and the include file \<^verbatim>\<open>inc.h\<close> with the given time stamps.
\<close>

definition exampleFiles :: "string \<Rightarrow> bool \<Rightarrow> int \<Rightarrow> int \<Rightarrow> FileSystem" where
  "exampleFiles record spvPresent sourceTime includeTime =
     \<lparr>fileExists = (\<lambda>p. p = ''c/s.frag_A.cache'' \<or> (p = ''c/0000001f.spv'' \<and> spvPresent)
                        \<or> p = ''s.frag'' \<or> p = ''inc.h''),
      getFileTimestamp = (\<lambda>p. if p = ''c/s.frag_A.cache'' then 100
                               else if p = ''s.frag'' then sourceTime
                               else if p = ''inc.h'' then includeTime else 0),
      readFile = (\<lambda>p. if p = ''c/s.frag_A.cache'' then record
                       else if p = ''c/0000001f.spv'' then ''ABCDEFGH'' else [])\<rparr>"


section \<open>Resource registries\<close>

text \<open>
  Modelled from the spec: \<^verbatim>\<open>ResourceContainer\<close> and the handle types are declared in
  headers that are not part of the sources.  The spec (3, 4.1) says that a handle is an
  opaque index whose default value denotes "no resource", that \<^verbatim>\<open>add()\<close> returns a
  fresh record with its handle, that \<^verbatim>\<open>get\<close> fails with InvalidHandle when the handle
  is absent, and that \<^verbatim>\<open>remove\<close> deallocates the slot.  Handles are natural numbers, 0
  is the null handle, and \<^verbatim>\<open>add\<close> hands out \<open>nextHandle\<close>, which only grows.
\<close>

type_synonym handle = nat

record 'a ResourceContainer =
  resources :: "(handle \<times> 'a) list"
  nextHandle :: handle

definition container_empty :: "'a ResourceContainer" where
  "container_empty = \<lparr>resources = [], nextHandle = 1\<rparr>"

definition container_add :: "'a \<Rightarrow> 'a ResourceContainer \<Rightarrow> handle \<times> 'a ResourceContainer" where
  "container_add r c =
     (nextHandle c,
      c\<lparr>resources := AList.update (nextHandle c) r (resources c), nextHandle := Suc (nextHandle c)\<rparr>)"

definition container_get :: "handle \<Rightarrow> 'a ResourceContainer \<Rightarrow> error + 'a" where
  "container_get h c = (case map_of (resources c) h of None \<Rightarrow> Inl InvalidHandle | Some r \<Rightarrow> Inr r)"

definition container_set :: "handle \<Rightarrow> 'a \<Rightarrow> 'a ResourceContainer \<Rightarrow> 'a ResourceContainer" where
  "container_set h r c = c\<lparr>resources := AList.update h r (resources c)\<rparr>"

definition container_remove :: "handle \<Rightarrow> 'a ResourceContainer \<Rightarrow> error + 'a ResourceContainer" where
  "container_remove h c =
     (case map_of (resources c) h of
        None \<Rightarrow> Inl InvalidHandle
      | Some r \<Rightarrow> Inr (c\<lparr>resources := AList.delete h (resources c)\<rparr>))"

section \<open>Resources of the OpenGL renderer\<close>

text \<open>
  The structs are declared in a header that is not part of the sources; the fields are
  the ones that the functions below read and write.  The trailing underscore of the
  descriptor fields (\<^verbatim>\<open>renderPass_\<close>) is not an Isabelle identifier: these fields carry
  the prefix of their struct instead, as do fields whose name occurs in two structs.
  \<^verbatim>\<open>GLuint\<close> names of GL objects are \<open>uint\<close>, 0 being no object.
\<close>

datatype Layout = Undefined | ShaderRead | TransferSrc | TransferDst | ColorAttachment

datatype DescriptorType =
  End | UniformBuffer | StorageBuffer | Sampler | Texture | CombinedSampler | Count

record Buffer =
  buffer :: uint
  ringBufferAlloc :: bool
  beginOffs :: uint
  buf_size :: uint

record TextureObject =
  tex :: uint
  renderTarget :: bool

record RenderTarget =
  rt_width :: uint
  rt_height :: uint
  currentLayout :: Layout
  texture :: handle
  readFBO :: uint

record RenderPassDesc =
  colorFinalLayout :: Layout

record RenderPass =
  rp_desc :: RenderPassDesc

record Framebuffer =
  fbo :: uint
  fb_renderPass :: handle
  colors_0 :: handle
  depthStencil :: handle
  fb_width :: uint
  fb_height :: uint

record DescriptorLayout =
  dl_type :: DescriptorType
  dl_offset :: uint

record DescriptorSetLayout =
  layout :: "DescriptorLayout list"

record ShaderResource =
  res_set :: uint
  res_binding :: uint
  res_type :: DescriptorType

record VertexShader =
  v_shader :: uint
  v_name :: string
  v_resources :: "ShaderResource list"

record FragmentShader =
  f_shader :: uint
  f_name :: string
  f_resources :: "ShaderResource list"

record PipelineDesc =
  pd_vertexShader :: handle
  pd_fragmentShader :: handle
  pd_renderPass :: handle
  pd_name :: "string option"
  descriptorSetLayouts :: "handle list"
  pd_depthWrite :: bool
  pd_depthTest :: bool
  pd_cullFaces :: bool
  pd_scissorTest :: bool
  pd_blending :: bool
  vertexAttribMask :: uint

record Pipeline =
  p_desc :: PipelineDesc
  p_shader :: uint

text \<open>
  The lines that pipeline creation writes with \<^verbatim>\<open>LOG\<close>: the two
  \<^verbatim>\<open>LOG("ERROR: ...")\<close> lines of \<^verbatim>\<open>checkShaderResources\<close> with their arguments (set,
  binding, type, shader name, and the set size or the layout's type), and the
  \<^verbatim>\<open>LOG("info log: ...")\<close> line of \<^verbatim>\<open>createPipeline\<close> with the text that the driver
  gave.  The log is an output of the program, not a part of the renderer: a function
  that logs returns the lines it wrote, in order, beside its result, so that what was
  written before a failure is kept.
\<close>

datatype log_message =
  GreaterThanSetSize uint uint DescriptorType string nat
| DoesNotMatchLayout uint uint DescriptorType string DescriptorType
| InfoLog string

record renderer = ring_state +
  ringBuffer :: uint
  uboAlign :: uint
  ssboAlign :: uint
  swapchainWidth :: uint
  swapchainHeight :: uint
  inFrame :: bool
  inRenderPass :: bool
  validPipeline :: bool
  pipelineDrawn :: bool
  scissorSet :: bool
  buffers :: "Buffer ResourceContainer"
  dsLayouts :: "DescriptorSetLayout ResourceContainer"
  fragmentShaders :: "FragmentShader ResourceContainer"
  framebuffers :: "Framebuffer ResourceContainer"
  pipelines :: "Pipeline ResourceContainer"
  renderPasses :: "RenderPass ResourceContainer"
  renderTargets :: "RenderTarget ResourceContainer"
  textures :: "TextureObject ResourceContainer"
  vertexShaders :: "VertexShader ResourceContainer"
  ephemeralBuffers :: "handle list"
  currentPipeline :: PipelineDesc
  currentRenderPass :: handle
  currentFramebuffer :: handle

section \<open>Buffers (OpenGL renderer)\<close>

text \<open>
  The GL driver is not part of the sources: the name that \<^verbatim>\<open>glCreateBuffers\<close>,
  \<^verbatim>\<open>glCreateFramebuffers\<close> or \<^verbatim>\<open>glCreateProgram\<close> writes is an argument of the
  function that calls it, and so is the link status of a program.  The other GL calls
  change the state of the driver only, which is not modelled.  \<^verbatim>\<open>contents\<close> is a
  pointer: \<open>None\<close> is \<^verbatim>\<open>nullptr\<close>.  The \<^verbatim>\<open>ringBufferAllocate\<close> that
  \<^verbatim>\<open>createEphemeralBuffer\<close> calls is the one of \<^verbatim>\<open>RendererCommon.cpp\<close> above.
\<close>

definition createBuffer :: "uint \<Rightarrow> string option \<Rightarrow> uint \<Rightarrow> renderer \<Rightarrow> error + (handle \<times> renderer)" where
  "createBuffer sz contents glName s =
     (if \<not> sz \<noteq> 0 then Inl AssertionFailed
      else
        (let result = container_add
               \<lparr>buffer = glName, ringBufferAlloc = False, beginOffs = 0, buf_size = sz\<rparr> (buffers s)
         in Inr (fst result, s\<lparr>buffers := snd result\<rparr>)))"

definition createEphemeralBuffer :: "uint \<Rightarrow> string option \<Rightarrow> renderer \<Rightarrow> error + (handle \<times> renderer)" where
  "createEphemeralBuffer sz contents s =
     (if \<not> sz \<noteq> 0 then Inl AssertionFailed
      else if contents = None then Inl AssertionFailed
      else
        (case ringBufferAllocate sz (max (uboAlign s) (ssboAlign s)) s of
           Inl e \<Rightarrow> Inl e
         | Inr (beginPtr, s1) \<Rightarrow>
             (let result = container_add
                    \<lparr>buffer = ringBuffer s1, ringBufferAlloc = True, beginOffs = beginPtr, buf_size = sz\<rparr>
                    (buffers s1)
              in Inr (fst result,
                      s1\<lparr>buffers := snd result,
                         ephemeralBuffers := ephemeralBuffers s1 @ [fst result]\<rparr>))))"

text \<open>\<^verbatim>\<open>removeWith\<close> looks the record up, runs the cleanup callback on it and removes it.\<close>

definition deleteBuffer :: "handle \<Rightarrow> renderer \<Rightarrow> error + renderer" where
  "deleteBuffer h s =
     (case container_get h (buffers s) of
        Inl e \<Rightarrow> Inl e
      | Inr b \<Rightarrow>
          if \<not> buffer b \<noteq> 0 then Inl AssertionFailed
          else if \<not> buf_size b \<noteq> 0 then Inl AssertionFailed
          else if \<not> \<not> ringBufferAlloc b then Inl AssertionFailed
          else
            (case container_remove h (buffers s) of
               Inl e \<Rightarrow> Inl e
             | Inr bs \<Rightarrow> Inr (s\<lparr>buffers := bs\<rparr>)))"

section \<open>Frames and render passes\<close>

definition beginFrame :: "renderer \<Rightarrow> error + renderer" where
  "beginFrame s =
     (if \<not> \<not> inFrame s then Inl AssertionFailed
      else Inr (s\<lparr>inFrame := True, inRenderPass := False, validPipeline := False,
                  pipelineDrawn := True\<rparr>))"

text \<open>The loop at the end of \<^verbatim>\<open>presentFrame\<close> over \<^verbatim>\<open>ephemeralBuffers\<close>.\<close>

fun releaseEphemeralBuffers :: "handle list \<Rightarrow> renderer \<Rightarrow> error + renderer" where
  "releaseEphemeralBuffers [] s = Inr s"
| "releaseEphemeralBuffers (h # hs) s =
     (case container_get h (buffers s) of
        Inl e \<Rightarrow> Inl e
      | Inr b \<Rightarrow>
          if \<not> buffer b = ringBuffer s then Inl AssertionFailed
          else if \<not> ringBufferAlloc b then Inl AssertionFailed
          else if \<not> buf_size b > 0 then Inl AssertionFailed
          else
            (case container_remove h (buffers s) of
               Inl e \<Rightarrow> Inl e
             | Inr bs \<Rightarrow> releaseEphemeralBuffers hs (s\<lparr>buffers := bs\<rparr>)))"

text \<open>The block of \<^verbatim>\<open>presentFrame\<close> that creates the read framebuffer on first use.\<close>

definition ensureReadFBO :: "uint \<Rightarrow> RenderTarget \<Rightarrow> renderer \<Rightarrow> error + RenderTarget" where
  "ensureReadFBO glName rt s =
     (if readFBO rt = 0 then
        (case container_get (texture rt) (textures s) of
           Inl e \<Rightarrow> Inl e
         | Inr colorTex \<Rightarrow>
             if \<not> renderTarget colorTex then Inl AssertionFailed
             else if \<not> tex colorTex \<noteq> 0 then Inl AssertionFailed
             else Inr (rt\<lparr>readFBO := glName\<rparr>))
      else Inr rt)"

definition presentFrame :: "handle \<Rightarrow> uint \<Rightarrow> renderer \<Rightarrow> error + renderer" where
  "presentFrame image' glName s0 =
     (if \<not> inFrame s0 then Inl AssertionFailed
      else
        (let s = s0\<lparr>inFrame := False\<rparr> in
         case container_get image' (renderTargets s) of
           Inl e \<Rightarrow> Inl e
         | Inr rt \<Rightarrow>
             if \<not> currentLayout rt = TransferSrc then Inl AssertionFailed
             else if \<not> rt_width rt = swapchainWidth s then Inl AssertionFailed
             else if \<not> rt_height rt = swapchainHeight s then Inl AssertionFailed
             else if \<not> rt_width rt > 0 then Inl AssertionFailed
             else if \<not> rt_height rt > 0 then Inl AssertionFailed
             else
               (case ensureReadFBO glName rt s of
                  Inl e \<Rightarrow> Inl e
                | Inr rt' \<Rightarrow>
                    (let s1 = s\<lparr>renderTargets := container_set image' rt' (renderTargets s)\<rparr> in
                     case releaseEphemeralBuffers (ephemeralBuffers s1) s1 of
                       Inl e \<Rightarrow> Inl e
                     | Inr s2 \<Rightarrow> Inr (s2\<lparr>ephemeralBuffers := []\<rparr>)))))"

definition beginRenderPass :: "handle \<Rightarrow> handle \<Rightarrow> renderer \<Rightarrow> error + renderer" where
  "beginRenderPass rpHandle fbHandle s0 =
     (if \<not> inFrame s0 then Inl AssertionFailed
      else if \<not> \<not> inRenderPass s0 then Inl AssertionFailed
      else
        (let s = s0\<lparr>inRenderPass := True, validPipeline := False\<rparr> in
         if \<not> fbHandle \<noteq> 0 then Inl AssertionFailed
         else
           (case container_get fbHandle (framebuffers s) of
              Inl e \<Rightarrow> Inl e
            | Inr fb \<Rightarrow>
                if \<not> fbo fb \<noteq> 0 then Inl AssertionFailed
                else if \<not> fb_renderPass fb = rpHandle then Inl AssertionFailed
                else if \<not> fb_width fb > 0 then Inl AssertionFailed
                else if \<not> fb_height fb > 0 then Inl AssertionFailed
                else Inr (s\<lparr>currentRenderPass := rpHandle, currentFramebuffer := fbHandle\<rparr>))))"

definition endRenderPass :: "renderer \<Rightarrow> error + renderer" where
  "endRenderPass s0 =
     (if \<not> inFrame s0 then Inl AssertionFailed
      else if \<not> inRenderPass s0 then Inl AssertionFailed
      else
        (let s = s0\<lparr>inRenderPass := False\<rparr> in
         case container_get (currentRenderPass s) (renderPasses s) of
           Inl e \<Rightarrow> Inl e
         | Inr pass \<Rightarrow>
             (case container_get (currentFramebuffer s) (framebuffers s) of
                Inl e \<Rightarrow> Inl e
              | Inr fb \<Rightarrow>
                  (case container_get (colors_0 fb) (renderTargets s) of
                     Inl e \<Rightarrow> Inl e
                   | Inr rt \<Rightarrow>
                       Inr (s\<lparr>renderTargets :=
                                container_set (colors_0 fb)
                                  (rt\<lparr>currentLayout := colorFinalLayout (rp_desc pass)\<rparr>)
                                  (renderTargets s),
                              currentRenderPass := 0,
                              currentFramebuffer := 0\<rparr>)))))"

section \<open>Pipelines and draws\<close>

definition setScissorRect :: "uint \<Rightarrow> uint \<Rightarrow> uint \<Rightarrow> uint \<Rightarrow> renderer \<Rightarrow> error + renderer" where
  "setScissorRect x y w h s =
     (if \<not> validPipeline s then Inl AssertionFailed
      else if \<not> pd_scissorTest (currentPipeline s) then Inl AssertionFailed
      else Inr (s\<lparr>scissorSet := True\<rparr>))"

definition bindPipeline :: "handle \<Rightarrow> renderer \<Rightarrow> error + renderer" where
  "bindPipeline pipeline s0 =
     (if \<not> inFrame s0 then Inl AssertionFailed
      else if \<not> pipeline \<noteq> 0 then Inl AssertionFailed
      else if \<not> inRenderPass s0 then Inl AssertionFailed
      else if \<not> pipelineDrawn s0 then Inl AssertionFailed
      else
        (let s = s0\<lparr>pipelineDrawn := False, validPipeline := True, scissorSet := False\<rparr> in
         case container_get pipeline (pipelines s) of
           Inl e \<Rightarrow> Inl e
         | Inr p \<Rightarrow>
             if \<not> pd_renderPass (p_desc p) = currentRenderPass s then Inl AssertionFailed
             else Inr (s\<lparr>currentPipeline := p_desc p\<rparr>)))"

definition draw :: "uint \<Rightarrow> uint \<Rightarrow> renderer \<Rightarrow> error + renderer" where
  "draw firstVertex vertexCount s =
     (if \<not> inRenderPass s then Inl AssertionFailed
      else if \<not> validPipeline s then Inl AssertionFailed
      else if \<not> vertexCount > 0 then Inl AssertionFailed
      else if \<not> (\<not> pd_scissorTest (currentPipeline s) \<or> scissorSet s) then Inl AssertionFailed
      else if \<not> pd_renderPass (currentPipeline s) = currentRenderPass s then Inl AssertionFailed
      else Inr (s\<lparr>pipelineDrawn := True\<rparr>))"

definition drawIndexedInstanced :: "uint \<Rightarrow> uint \<Rightarrow> renderer \<Rightarrow> error + renderer" where
  "drawIndexedInstanced vertexCount instanceCount s =
     (if \<not> inRenderPass s then Inl AssertionFailed
      else if \<not> validPipeline s then Inl AssertionFailed
      else if \<not> instanceCount > 0 then Inl AssertionFailed
      else if \<not> vertexCount > 0 then Inl AssertionFailed
      else if \<not> (\<not> pd_scissorTest (currentPipeline s) \<or> scissorSet s) then Inl AssertionFailed
      else if \<not> pd_renderPass (currentPipeline s) = currentRenderPass s then Inl AssertionFailed
      else Inr (s\<lparr>pipelineDrawn := True\<rparr>))"

definition drawIndexedOffset :: "uint \<Rightarrow> uint \<Rightarrow> renderer \<Rightarrow> error + renderer" where
  "drawIndexedOffset vertexCount firstIndex s =
     (if \<not> inRenderPass s then Inl AssertionFailed
      else if \<not> validPipeline s then Inl AssertionFailed
      else if \<not> vertexCount > 0 then Inl AssertionFailed
      else if \<not> (\<not> pd_scissorTest (currentPipeline s) \<or> scissorSet s) then Inl AssertionFailed
      else if \<not> pd_renderPass (currentPipeline s) = currentRenderPass s then Inl AssertionFailed
      else Inr (s\<lparr>pipelineDrawn := True\<rparr>))"

section \<open>Pipeline creation and shader resources\<close>



text \<open>
  \<^verbatim>\<open>MAX_DESCRIPTOR_SETS\<close> is defined in a header that is not part of the sources: it
  is the first argument of the two functions that use it.  \<^verbatim>\<open>layouts[r.set]\<close> is a
  \<^verbatim>\<open>std::vector\<close> access; outside the vector it is \<open>OutOfBounds\<close>.  The result is the
  list of the lines logged, in order, and the failure that ended the loop, if any
  (\<open>None\<close> when the function returns).
\<close>

fun checkShaderResources ::
  "nat \<Rightarrow> string \<Rightarrow> ShaderResource list \<Rightarrow> DescriptorLayout list list \<Rightarrow>
   log_message list \<times> error option" where
  "checkShaderResources MAX_SETS name [] layouts = ([], None)"
| "checkShaderResources MAX_SETS name (r # resources') layouts =
     (if \<not> unat (res_set r) < MAX_SETS then ([], Some AssertionFailed)
      else if \<not> unat (res_set r) < length layouts then ([], Some OutOfBounds)
      else
        (let set' = layouts ! unat (res_set r) in
         if unat (res_binding r) \<ge> length set' then
           (case checkShaderResources MAX_SETS name resources' layouts of
              (msgs, e) \<Rightarrow>
                (GreaterThanSetSize (res_set r) (res_binding r) (res_type r) name (length set') # msgs, e))
         else if dl_type (set' ! unat (res_binding r)) \<noteq> res_type r then
           (case checkShaderResources MAX_SETS name resources' layouts of
              (msgs, e) \<Rightarrow>
                (DoesNotMatchLayout (res_set r) (res_binding r) (res_type r) name
                   (dl_type (set' ! unat (res_binding r))) # msgs, e))
         else checkShaderResources MAX_SETS name resources' layouts))"

text \<open>
  The loop of \<^verbatim>\<open>createPipeline\<close> that fills \<^verbatim>\<open>layouts\<close>: entry \<open>i\<close> is the layout of
  \<^verbatim>\<open>desc.descriptorSetLayouts[i]\<close>, or stays empty for a null handle.
\<close>

fun pipelineLayouts ::
  "handle list \<Rightarrow> DescriptorSetLayout ResourceContainer \<Rightarrow> error + DescriptorLayout list list" where
  "pipelineLayouts [] ds = Inr []"
| "pipelineLayouts (h # hs) ds =
     (case (if h \<noteq> 0 then (case container_get h ds of Inl e \<Rightarrow> Inl e | Inr l \<Rightarrow> Inr (layout l))
            else Inr []) of
        Inl e \<Rightarrow> Inl e
      | Inr l \<Rightarrow>
          (case pipelineLayouts hs ds of
             Inl e \<Rightarrow> Inl e
           | Inr ls \<Rightarrow> Inr (l # ls)))"

text \<open>
  \<^verbatim>\<open>program\<close> is the name that \<^verbatim>\<open>glCreateProgram\<close> returns, \<^verbatim>\<open>linked\<close> says whether the
  driver reports \<^verbatim>\<open>GL_LINK_STATUS\<close> as \<^verbatim>\<open>GL_TRUE\<close>, and \<^verbatim>\<open>infoLog\<close> is the text that
  \<^verbatim>\<open>glGetProgramInfoLog\<close> gives when it does not.  \<^verbatim>\<open>desc.descriptorSetLayouts\<close> has
  \<^verbatim>\<open>MAX_DESCRIPTOR_SETS\<close> entries in the source; a list of another length is
  \<open>OutOfBounds\<close>.  The result is the lines logged and what the call returns;
  \<open>RuntimeError\<close> is the \<^verbatim>\<open>std::runtime_error\<close> thrown when linking fails.
\<close>

definition createPipeline ::
  "nat \<Rightarrow> PipelineDesc \<Rightarrow> uint \<Rightarrow> bool \<Rightarrow> string \<Rightarrow> renderer \<Rightarrow>
   log_message list \<times> (error + (handle \<times> renderer))" where
  "createPipeline MAX_SETS desc program linked infoLog s =
     (if \<not> pd_vertexShader desc \<noteq> 0 then ([], Inl AssertionFailed)
      else if \<not> pd_fragmentShader desc \<noteq> 0 then ([], Inl AssertionFailed)
      else if \<not> pd_renderPass desc \<noteq> 0 then ([], Inl AssertionFailed)
      else if \<not> pd_name desc \<noteq> None then ([], Inl AssertionFailed)
      else
        (case container_get (pd_vertexShader desc) (vertexShaders s) of
           Inl e \<Rightarrow> ([], Inl e)
         | Inr v \<Rightarrow>
         (case container_get (pd_fragmentShader desc) (fragmentShaders s) of
           Inl e \<Rightarrow> ([], Inl e)
         | Inr f \<Rightarrow>
         if length (descriptorSetLayouts desc) \<noteq> MAX_SETS then ([], Inl OutOfBounds)
         else
         (case pipelineLayouts (descriptorSetLayouts desc) (dsLayouts s) of
           Inl e \<Rightarrow> ([], Inl e)
         | Inr layouts \<Rightarrow>
         (case checkShaderResources MAX_SETS (v_name v) (v_resources v) layouts of
           (vmsgs, Some e) \<Rightarrow> (vmsgs, Inl e)
         | (vmsgs, None) \<Rightarrow>
         (case checkShaderResources MAX_SETS (f_name f) (f_resources f) layouts of
           (fmsgs, Some e) \<Rightarrow> (vmsgs @ fmsgs, Inl e)
         | (fmsgs, None) \<Rightarrow>
         if \<not> linked then (vmsgs @ fmsgs @ [InfoLog infoLog], Inl RuntimeError)
         else
           (let result = container_add \<lparr>p_desc = desc, p_shader = program\<rparr> (pipelines s) in
            (vmsgs @ fmsgs, Inr (fst result, s\<lparr>pipelines := snd result\<rparr>)))))))))"

section \<open>Sequences of calls\<close>

text \<open>
  The calls of the public API that are modelled above, as data, so that properties of
  call sequences can be stated.  \<open>exec\<close> runs one call and returns the handle it
  returns, if any; \<open>run\<close> runs a list of calls in order and stops at the first failure.
\<close>

datatype command =
  CreateBuffer uint "string option" uint
| CreateEphemeralBuffer uint "string option"
| DeleteBuffer handle
| BeginFrame
| PresentFrame handle uint
| BeginRenderPass handle handle
| EndRenderPass
| SetScissorRect uint uint uint uint
| BindPipeline handle
| Draw uint uint
| DrawIndexedInstanced uint uint
| DrawIndexedOffset uint uint

definition returning :: "error + (handle \<times> renderer) \<Rightarrow> error + (handle option \<times> renderer)" where
  "returning r = (case r of Inl e \<Rightarrow> Inl e | Inr (h, s) \<Rightarrow> Inr (Some h, s))"

definition returning_void :: "error + renderer \<Rightarrow> error + (handle option \<times> renderer)" where
  "returning_void r = (case r of Inl e \<Rightarrow> Inl e | Inr s \<Rightarrow> Inr (None, s))"

fun exec :: "command \<Rightarrow> renderer \<Rightarrow> error + (handle option \<times> renderer)" where
  "exec (CreateBuffer sz contents glName) s = returning (createBuffer sz contents glName s)"
| "exec (CreateEphemeralBuffer sz contents) s = returning (createEphemeralBuffer sz contents s)"
| "exec (DeleteBuffer h) s = returning_void (deleteBuffer h s)"
| "exec BeginFrame s = returning_void (beginFrame s)"
| "exec (PresentFrame image' glName) s = returning_void (presentFrame image' glName s)"
| "exec (BeginRenderPass rp fb) s = returning_void (beginRenderPass rp fb s)"
| "exec EndRenderPass s = returning_void (endRenderPass s)"
| "exec (SetScissorRect x y w h) s = returning_void (setScissorRect x y w h s)"
| "exec (BindPipeline p) s = returning_void (bindPipeline p s)"
| "exec (Draw firstVertex vertexCount) s = returning_void (draw firstVertex vertexCount s)"
| "exec (DrawIndexedInstanced vertexCount instanceCount) s =
     returning_void (drawIndexedInstanced vertexCount instanceCount s)"
| "exec (DrawIndexedOffset vertexCount firstIndex) s =
     returning_void (drawIndexedOffset vertexCount firstIndex s)"

fun run :: "command list \<Rightarrow> renderer \<Rightarrow> error + (handle option list \<times> renderer)" where
  "run [] s = Inr ([], s)"
| "run (c # cs) s =
     (case exec c s of
        Inl e \<Rightarrow> Inl e
      | Inr (r, s1) \<Rightarrow>
          (case run cs s1 of
             Inl e \<Rightarrow> Inl e
           | Inr (rs, s2) \<Rightarrow> Inr (r # rs, s2)))"

text \<open>The handles that the \<^verbatim>\<open>createEphemeralBuffer\<close> calls of a run returned.\<close>

fun ephemeralCreated :: "command list \<Rightarrow> handle option list \<Rightarrow> handle list" where
  "ephemeralCreated (CreateEphemeralBuffer sz contents # cs) (Some h # rs) = h # ephemeralCreated cs rs"
| "ephemeralCreated (c # cs) (r # rs) = ephemeralCreated cs rs"
| "ephemeralCreated cs rs = []"

fun isPresentFrame :: "command \<Rightarrow> bool" where
  "isPresentFrame (PresentFrame image' glName) = True"
| "isPresentFrame c = False"

fun isDraw :: "command \<Rightarrow> bool" where
  "isDraw (Draw firstVertex vertexCount) = True"
| "isDraw (DrawIndexedInstanced vertexCount instanceCount) = True"
| "isDraw (DrawIndexedOffset vertexCount firstIndex) = True"
| "isDraw c = False"

section \<open>Shader resources against layouts, as the specification words it\<close>



section \<open>The buffer registry and the list of ephemeral buffers\<close>

text \<open>
  What holds of the buffers of a renderer between calls: every registered handle is
  below the next handle that the registry will hand out, and every handle of the list
  \<^verbatim>\<open>ephemeralBuffers\<close> names a registered buffer that is a ring buffer allocation.  It
  holds of a renderer that has no buffers, and every call modelled here keeps it.
\<close>

definition buffers_ok :: "renderer \<Rightarrow> bool" where
  "buffers_ok s =
     ((\<forall>h \<in> fst ` set (resources (buffers s)). h < nextHandle (buffers s)) \<and>
      (\<forall>h \<in> set (ephemeralBuffers s).
         case map_of (resources (buffers s)) h of None \<Rightarrow> False | Some b \<Rightarrow> ringBufferAlloc b))"

section \<open>An example renderer\<close>

text \<open>
  A renderer as it is after its resources were created, outside a frame: a ring buffer
  of 64 bytes, a swapchain of 256 by 256, one render target of that size (handle 1, its
  texture handle 1) in layout TransferSrc, one render pass (handle 1) whose final colour
  layout is TransferSrc, one framebuffer on them (handle 1), a vertex and a fragment
  shader (handles 1) with the resources that reflection found in them, and two pipelines
  of that render pass, the first without and the second with the scissor test.
\<close>

definition examplePipelineDesc :: "bool \<Rightarrow> PipelineDesc" where
  "examplePipelineDesc scissor =
     \<lparr>pd_vertexShader = 1, pd_fragmentShader = 1, pd_renderPass = 1, pd_name = Some ''example'',
      descriptorSetLayouts = [0, 0], pd_depthWrite = False, pd_depthTest = False,
      pd_cullFaces = False, pd_scissorTest = scissor, pd_blending = False, vertexAttribMask = 0\<rparr>"

definition exampleVertexShader :: VertexShader where
  "exampleVertexShader =
     \<lparr>v_shader = 10, v_name = ''example.vert'',
      v_resources = [\<lparr>res_set = 0, res_binding = 0, res_type = UniformBuffer\<rparr>,
                     \<lparr>res_set = 0, res_binding = 1, res_type = Sampler\<rparr>]\<rparr>"

definition exampleFragmentShader :: FragmentShader where
  "exampleFragmentShader =
     \<lparr>f_shader = 11, f_name = ''example.frag'',
      f_resources = [\<lparr>res_set = 0, res_binding = 1, res_type = Texture\<rparr>,
                     \<lparr>res_set = 1, res_binding = 0, res_type = Texture\<rparr>]\<rparr>"

definition exampleRenderer :: renderer where
  "exampleRenderer =
     \<lparr>ringBufSize = 64, ringBufPtr = 0, lastSyncedRingBufPtr = 0,
      ringBuffer = 1, uboAlign = 16, ssboAlign = 4,
      swapchainWidth = 256, swapchainHeight = 256,
      inFrame = False, inRenderPass = False, validPipeline = False, pipelineDrawn = False,
      scissorSet = False,
      buffers = container_empty,
      dsLayouts = container_empty,
      fragmentShaders = \<lparr>resources = [(1, exampleFragmentShader)], nextHandle = 2\<rparr>,
      framebuffers =
        \<lparr>resources = [(1, \<lparr>fbo = 4, fb_renderPass = 1, colors_0 = 1, depthStencil = 0,
                             fb_width = 256, fb_height = 256\<rparr>)],
         nextHandle = 2\<rparr>,
      pipelines =
        \<lparr>resources = [(1, \<lparr>p_desc = examplePipelineDesc False, p_shader = 5\<rparr>),
                      (2, \<lparr>p_desc = examplePipelineDesc True, p_shader = 6\<rparr>)],
         nextHandle = 3\<rparr>,
      renderPasses =
        \<lparr>resources = [(1, \<lparr>rp_desc = \<lparr>colorFinalLayout = TransferSrc\<rparr>\<rparr>)], nextHandle = 2\<rparr>,
      renderTargets =
        \<lparr>resources = [(1, \<lparr>rt_width = 256, rt_height = 256, currentLayout = TransferSrc,
                             texture = 1, readFBO = 0\<rparr>)],
         nextHandle = 2\<rparr>,
      textures = \<lparr>resources = [(1, \<lparr>tex = 3, renderTarget = True\<rparr>)], nextHandle = 2\<rparr>,
      vertexShaders = \<lparr>resources = [(1, exampleVertexShader)], nextHandle = 2\<rparr>,
      ephemeralBuffers = [],
      currentPipeline = examplePipelineDesc False,
      currentRenderPass = 0,
      currentFramebuffer = 0\<rparr>"

text \<open>The example renderer inside a frame, and inside the render pass of that frame.\<close>

definition exampleInFrame :: renderer where
  "exampleInFrame = exampleRenderer\<lparr>inFrame := True, pipelineDrawn := True\<rparr>"

definition exampleInPass :: renderer where
  "exampleInPass =
     exampleRenderer\<lparr>inFrame := True, inRenderPass := True, pipelineDrawn := True,
                     currentRenderPass := 1, currentFramebuffer := 1\<rparr>"


text \<open>Inside a frame, with the render target still in the layout ColorAttachment.\<close>

definition exampleColorAttachment :: renderer where
  "exampleColorAttachment =
     exampleInFrame\<lparr>renderTargets :=
       \<lparr>resources = [(1, \<lparr>rt_width = 256, rt_height = 256, currentLayout = ColorAttachment,
                            texture = 1, readFBO = 0\<rparr>)],
        nextHandle = 2\<rparr>\<rparr>"

text \<open>What \<^verbatim>\<open>presentFrame\<close> of render target 1 makes of a renderer that has no ephemeral
  buffers, when the driver names the new read framebuffer 9.\<close>

definition examplePresented :: "renderer \<Rightarrow> renderer" where
  "examplePresented s =
     s\<lparr>inFrame := False,
       renderTargets :=
         \<lparr>resources = [(1, \<lparr>rt_width = 256, rt_height = 256, currentLayout = TransferSrc,
                              texture = 1, readFBO = 9\<rparr>)],
          nextHandle = 2\<rparr>\<rparr>"

text \<open>Inside a frame, after an ephemeral buffer of 10 bytes, a standalone buffer of 8
  bytes (named 7 by the driver) and an ephemeral buffer of 4 bytes were created.\<close>

definition exampleWithBuffers :: renderer where
  "exampleWithBuffers =
     exampleInFrame\<lparr>ringBufPtr := 20,
       buffers :=
         \<lparr>resources =
            [(1, \<lparr>buffer = 1, ringBufferAlloc = True, beginOffs = 0, buf_size = 10\<rparr>),
             (2, \<lparr>buffer = 7, ringBufferAlloc = False, beginOffs = 0, buf_size = 8\<rparr>),
             (3, \<lparr>buffer = 1, ringBufferAlloc = True, beginOffs = 16, buf_size = 4\<rparr>)],
          nextHandle = 4\<rparr>,
       ephemeralBuffers := [1, 3]\<rparr>"

definition exampleStandaloneOnly :: "Buffer ResourceContainer" where
  "exampleStandaloneOnly =
     \<lparr>resources = [(2, \<lparr>buffer = 7, ringBufferAlloc = False, beginOffs = 0, buf_size = 8\<rparr>)],
      nextHandle = 4\<rparr>"


definition exampleWithLayout :: renderer where
  "exampleWithLayout =
     exampleRenderer\<lparr>dsLayouts :=
       \<lparr>resources = [(1, \<lparr>layout = [\<lparr>dl_type = UniformBuffer, dl_offset = 0\<rparr>,
                                       \<lparr>dl_type = Texture, dl_offset = 16\<rparr>]\<rparr>)],
        nextHandle = 2\<rparr>\<rparr>"

definition exampleNewPipelineDesc :: PipelineDesc where
  "exampleNewPipelineDesc = (examplePipelineDesc False)\<lparr>descriptorSetLayouts := [1, 0]\<rparr>"

section \<open>Verification: ring buffer allocator\<close>

subsection \<open>Powers of two and rounding\<close>

lemma isPow2_iff: "isPow2 v \<longleftrightarrow> (\<exists>k<32. v = 2 ^ k)"
  by (auto simp: isPow2_def)

lemma unat_pow2: "k < 32 \<Longrightarrow> unat ((2::uint) ^ k) = 2 ^ k"
proof -
  assume k: "k < 32"
  then have "(2::uint) ^ k \<noteq> 0" by (simp add: exp_eq_zero_iff)
  then have "0 < (2::uint) ^ k" by (simp add: word_gt_0)
  then have "uint ((2::uint) ^ k) = 2 ^ k" by (rule uint_2p)
  then have "int (unat ((2::uint) ^ k)) = int (2 ^ k)" by simp
  then show ?thesis by (simp only: of_nat_eq_iff)
qed

lemma and_not_mask_eq: "(x :: uint) AND NOT (mask k) = 2 ^ k * drop_bit k x"
proof -
  have "x AND NOT (mask k) = push_bit k (drop_bit k x)"
    by (rule bit_eqI) (auto simp: bit_simps)
  then show ?thesis by (simp add: push_bit_eq_mult)
qed

lemma roundup_dvd:
  assumes "k < 32"
  shows "(2::nat) ^ k dvd unat (((p::uint) + (2 ^ k - 1)) AND NOT (2 ^ k - 1))"
proof -
  have "(2::uint) ^ k - 1 = mask k" by (simp add: mask_eq_exp_minus_1)
  then have "unat ((p + (2 ^ k - 1)) AND NOT (2 ^ k - 1)) = unat (2 ^ k * drop_bit k (p + mask k))"
    by (simp add: and_not_mask_eq)
  also have "\<dots> = (unat ((2::uint) ^ k) * unat (drop_bit k (p + mask k))) mod 2 ^ 32"
    by (simp add: unat_word_ariths)
  also have "\<dots> = (2 ^ k * unat (drop_bit k (p + mask k))) mod 2 ^ 32"
    using assms by (simp only: unat_pow2)
  finally have e: "unat ((p + (2 ^ k - 1)) AND NOT (2 ^ k - 1)) = (2 ^ k * unat (drop_bit k (p + mask k))) mod 2 ^ 32" .
  have d: "(2::nat) ^ k dvd 2 ^ 32" by (rule le_imp_power_dvd) (use assms in simp)
  show ?thesis unfolding e by (intro dvd_mod dvd_triv_left d)
qed

lemma pow2_dvd_mod_pow2:
  assumes "(2::nat) ^ k dvd x"
  shows "2 ^ k dvd x mod 2 ^ j"
proof (cases "k \<le> j")
  case True
  then have "(2::nat) ^ k dvd 2 ^ j" by (simp add: le_imp_power_dvd)
  with assms show ?thesis by (simp add: dvd_mod)
next
  case False
  then have "(2::nat) ^ j dvd 2 ^ k" by (simp add: le_imp_power_dvd)
  with assms have "2 ^ j dvd x" using dvd_trans by blast
  then show ?thesis by simp
qed

lemma nextPow2_from_pow2:
  "\<exists>m. nextPow2_from fuel (2 ^ i) n = 2 ^ m \<and> m \<le> i + fuel"
proof (induction fuel arbitrary: i)
  case 0
  show ?case by auto
next
  case (Suc fuel)
  from Suc.IH [of "Suc i"] obtain m where "nextPow2_from fuel (2 ^ Suc i) n = 2 ^ m" "m \<le> Suc i + fuel"
    by blast
  then show ?case by auto
qed

lemma nextPow2_pow2: "nextPow2 v = 0 \<or> isPow2 (nextPow2 v)"
proof -
  from nextPow2_from_pow2 [of 32 0 "unat v"]
  obtain m where m: "nextPow2_from 32 1 (unat v) = 2 ^ m" "m \<le> 32" by auto
  then have e: "nextPow2 v = 2 ^ m" by (simp add: nextPow2_def)
  show ?thesis
  proof (cases "m = 32")
    case True
    with e show ?thesis by simp
  next
    case False
    with m have "m < 32" by simp
    with e show ?thesis unfolding isPow2_iff by blast
  qed
qed

lemma ringBufferFinish_Inr:
  "ringBufferFinish sz ap bp s = Inr (off, s') \<Longrightarrow>
     (off = bp \<and> ringBufSize s' = ringBufSize s) \<or>
     (off = 0 \<and> sz < ringBufSize s * 2 \<and> ringBufSize s' = ringBufSize s * 2)"
  by (auto simp: ringBufferFinish_def recreateRingBuffer_def Let_def split: if_splits)

lemma double_pow2:
  assumes "isPow2 c" "sz < c * 2"
  shows "isPow2 (c * 2)"
proof -
  from assms(1) obtain j where j: "j < 32" "c = 2 ^ j" unfolding isPow2_iff by blast
  then have e: "c * 2 = 2 ^ Suc j" by simp
  have "c * 2 \<noteq> 0" using assms(2) by auto
  with e have "Suc j < 32" by (simp add: exp_eq_zero_iff del: power_Suc)
  with e show ?thesis unfolding isPow2_iff by blast
qed

lemma ringBufferFinish_ok:
  assumes fin: "ringBufferFinish sz ap bp s = Inr (off, s')"
    and cap: "isPow2 (ringBufSize s)"
    and al: "unat a dvd unat bp"
    and rng: "unat bp + unat sz \<le> unat (ringBufSize s)"
  shows "unat a dvd unat off \<and> unat off + unat sz \<le> unat (ringBufSize s') \<and> isPow2 (ringBufSize s')"
proof -
  from ringBufferFinish_Inr [OF fin] show ?thesis
  proof
    assume "off = bp \<and> ringBufSize s' = ringBufSize s"
    with cap al rng show ?thesis by simp
  next
    assume d: "off = 0 \<and> sz < ringBufSize s * 2 \<and> ringBufSize s' = ringBufSize s * 2"
    then have "isPow2 (ringBufSize s')" using double_pow2 [OF cap, of sz] by simp
    moreover from d have "unat sz \<le> unat (ringBufSize s')" by (simp add: word_less_nat_alt)
    ultimately show ?thesis using d by simp
  qed
qed


lemma pow2_le_2_31: "j < 32 \<Longrightarrow> (2::nat) ^ j \<le> 2 ^ 31"
  by (rule power_increasing) simp_all

lemma ringBufferAllocate_ok:
  assumes cap: "isPow2 (ringBufSize s0)"
    and res: "ringBufferAllocate sz al s0 = Inr (off, s')"
  shows "unat al dvd unat off \<and> unat off + unat sz \<le> unat (ringBufSize s') \<and> isPow2 (ringBufSize s')"
proof -
  define s where "s = (if sz > ringBufSize s0 then recreateRingBuffer (nextPow2 sz) s0 else s0)"
  define ap where "ap = (ringBufPtr s + (al - 1)) AND NOT (al - 1)"
  define bp where "bp = ap mod ringBufSize s"
  define sw where "sw = s\<lparr>ringBufPtr := (ringBufPtr s div ringBufSize s + 1) * ringBufSize s\<rparr>"
  define ap' where "ap' = (ringBufPtr sw + (al - 1)) AND NOT (al - 1)"
  define bp' where "bp' = ap' mod ringBufSize sw"
  from res have alp: "isPow2 al" and nz: "ringBufSize s \<noteq> 0"
    by (auto simp: ringBufferAllocate_def Let_def s_def split: if_splits)
  from res alp nz have branch:
    "(\<not> ringBufSize s \<le> bp + sz \<and> ringBufferFinish sz ap bp s = Inr (off, s')) \<or>
     (bp' + sz < ringBufSize sw \<and> bp' = 0 \<and> ringBufferFinish sz ap' bp' sw = Inr (off, s'))"
    unfolding ringBufferAllocate_def Let_def s_def [symmetric]
    unfolding ap_def [symmetric] bp_def [symmetric] sw_def [symmetric]
    unfolding ap'_def [symmetric] bp'_def [symmetric]
    by (simp split: if_splits)
  from alp obtain k where k: "k < 32" "al = 2 ^ k" unfolding isPow2_iff by blast
  have caps: "isPow2 (ringBufSize s)"
  proof (cases "sz > ringBufSize s0")
    case True
    then have "ringBufSize s = nextPow2 sz" by (simp add: s_def recreateRingBuffer_def)
    with nz nextPow2_pow2 [of sz] show ?thesis by auto
  next
    case False
    with cap show ?thesis by (simp add: s_def)
  qed
  then obtain j where j: "j < 32" "ringBufSize s = 2 ^ j" unfolding isPow2_iff by blast
  have uS: "unat (ringBufSize s) = 2 ^ j" using j by (simp only: unat_pow2)
  have ual: "unat al = 2 ^ k" using k by (simp only: unat_pow2)
  from branch show ?thesis
  proof
    assume A: "\<not> ringBufSize s \<le> bp + sz \<and> ringBufferFinish sz ap bp s = Inr (off, s')"
    have "2 ^ k dvd unat ap" unfolding ap_def k(2) by (rule roundup_dvd [OF k(1)])
    then have "2 ^ k dvd unat ap mod 2 ^ j" by (rule pow2_dvd_mod_pow2)
    then have dv: "unat al dvd unat bp" by (simp add: bp_def unat_mod uS ual)
    have lt: "bp + sz < ringBufSize s" using A by (simp add: linorder_not_le)
    have rng: "unat bp + unat sz \<le> unat (ringBufSize s)"
    proof (cases "sz > ringBufSize s0")
      case True
      then have "ringBufPtr s = 0" by (simp add: s_def recreateRingBuffer_def)
      then have "ap = 0" by (simp add: ap_def)
      then have "bp = 0" by (simp add: bp_def)
      with lt show ?thesis by (simp add: word_less_nat_alt)
    next
      case False
      then have "sz \<le> ringBufSize s" by (simp add: s_def)
      then have "unat sz \<le> 2 ^ j" using uS by (simp add: word_le_nat_alt)
      moreover have "unat bp < 2 ^ j"
        using nz uS by (simp add: bp_def unat_mod)
      moreover have "(2::nat) ^ j \<le> 2 ^ 31" using j(1) by (rule pow2_le_2_31)
      ultimately have "unat bp + unat sz < 2 ^ 32" by simp
      then have "unat (bp + sz) = unat bp + unat sz"
        using unat_add_lem [of bp sz] by simp
      with lt show ?thesis by (simp add: word_less_nat_alt)
    qed
    from A have fin: "ringBufferFinish sz ap bp s = Inr (off, s')" by simp
    show ?thesis by (rule ringBufferFinish_ok [OF fin caps dv rng])
  next
    assume B: "bp' + sz < ringBufSize sw \<and> bp' = 0 \<and> ringBufferFinish sz ap' bp' sw = Inr (off, s')"
    have sws: "ringBufSize sw = ringBufSize s" by (simp add: sw_def)
    from B have fin: "ringBufferFinish sz ap' bp' sw = Inr (off, s')" by blast
    from B have z: "bp' = 0" by blast
    from z have dv: "unat al dvd unat bp'" by simp
    from B have "sz < ringBufSize sw" unfolding z by simp
    then have rng: "unat bp' + unat sz \<le> unat (ringBufSize sw)" unfolding z by (simp add: word_less_nat_alt)
    from caps have capw: "isPow2 (ringBufSize sw)" by (simp add: sws)
    show ?thesis by (rule ringBufferFinish_ok [OF fin capw dv rng])
  qed
qed

lemma nextPow2_from_spec:
  "n \<le> p * 2 ^ fuel \<Longrightarrow>
     n \<le> nextPow2_from fuel p n \<and>
     (nextPow2_from fuel p n = p \<or> nextPow2_from fuel p n div 2 < n) \<and>
     (\<exists>m\<le>fuel. nextPow2_from fuel p n = p * 2 ^ m)"
proof (induction fuel arbitrary: p)
  case 0
  then show ?case by simp
next
  case (Suc fuel)
  show ?case
  proof (cases "n \<le> p")
    case True
    then show ?thesis by auto
  next
    case False
    from Suc.prems have "n \<le> (2 * p) * 2 ^ fuel" by (simp add: mult.assoc mult.left_commute)
    from Suc.IH [OF this] obtain m where
      a: "n \<le> nextPow2_from fuel (2 * p) n"
      and b: "nextPow2_from fuel (2 * p) n = 2 * p \<or> nextPow2_from fuel (2 * p) n div 2 < n"
      and c: "m \<le> fuel" "nextPow2_from fuel (2 * p) n = (2 * p) * 2 ^ m"
      by blast
    from c have "Suc m \<le> Suc fuel" "nextPow2_from fuel (2 * p) n = p * 2 ^ Suc m" by simp_all
    then have "\<exists>m\<le>Suc fuel. nextPow2_from fuel (2 * p) n = p * 2 ^ m" by blast
    moreover from b False have "nextPow2_from fuel (2 * p) n div 2 < n" by auto
    ultimately show ?thesis using False a by simp
  qed
qed

text \<open>For a request of at most \<open>2 ^ 31\<close> bytes, nextPow2 is a power of two that fits
  the word, at least the request, and less than twice the request.\<close>

lemma nextPow2_ok:
  assumes "0 < unat v" "unat v \<le> 2 ^ 31"
  shows "isPow2 (nextPow2 v) \<and> v \<le> nextPow2 v \<and> unat (nextPow2 v) < 2 * unat v"
proof -
  let ?r = "nextPow2_from 32 1 (unat v)"
  have "unat v \<le> 1 * 2 ^ 32" using assms(2) by simp
  then have spec: "unat v \<le> ?r \<and> (?r = 1 \<or> ?r div 2 < unat v) \<and> (\<exists>m\<le>32. ?r = 1 * 2 ^ m)"
    by (rule nextPow2_from_spec)
  from spec have a: "unat v \<le> ?r" by blast
  from spec have b: "?r = 1 \<or> ?r div 2 < unat v" by blast
  from spec obtain m where "m \<le> 32 \<and> ?r = 1 * 2 ^ m" by blast
  then have c: "m \<le> 32" "?r = 2 ^ m" by simp_all
  have m31: "m < 32"
  proof (rule ccontr)
    assume "\<not> m < 32"
    with c have "?r = 2 ^ 32" by simp
    with b assms(2) show False by simp
  qed
  have e: "nextPow2 v = 2 ^ m" using c by (simp add: nextPow2_def)
  have u: "unat (nextPow2 v) = ?r" unfolding e c(2) using m31 by (rule unat_pow2)
  have "isPow2 (nextPow2 v)" unfolding isPow2_iff using e m31 by blast
  moreover have "v \<le> nextPow2 v" using a u by (simp add: word_le_nat_alt)
  moreover have "unat (nextPow2 v) < 2 * unat v" using b u assms(1) by auto
  ultimately show ?thesis by simp
qed

text \<open>
  Claim C2, as amended.  When \<^verbatim>\<open>ringBufferAllocate\<close> is called with a size strictly
  greater than the capacity, and the size is at most \<open>2 ^ 31\<close> and not itself a power of
  two, the buffer is reallocated with capacity \<open>nextPow2 size\<close>, a power of two greater
  than the request and than the old capacity and less than twice the request; the cursor
  is reset to 0 and the request that triggered the growth is itself placed at offset 0,
  which the call returns, so that the cursor is the request's size afterwards.
\<close>

theorem ringBufferAllocate_grows_to_nextPow2:
  assumes big: "ringBufSize s < sz"
    and np: "\<not> isPow2 sz"
    and le: "unat sz \<le> 2 ^ 31"
    and al: "isPow2 al"
  shows "ringBufferAllocate sz al s =
           Inr (0, s\<lparr>ringBufSize := nextPow2 sz, ringBufPtr := sz, lastSyncedRingBufPtr := 0\<rparr>) \<and>
         isPow2 (nextPow2 sz) \<and> ringBufSize s < nextPow2 sz \<and> sz < nextPow2 sz \<and>
         unat (nextPow2 sz) < 2 * unat sz"
proof -
  from big have "sz \<noteq> 0" by auto
  then have pos: "0 < unat sz" by (simp add: unat_gt_0)
  from nextPow2_ok [OF pos le] have p: "isPow2 (nextPow2 sz)" and ge: "sz \<le> nextPow2 sz"
    and lt2: "unat (nextPow2 sz) < 2 * unat sz" by simp_all
  from p np have "sz \<noteq> nextPow2 sz" by auto
  with ge have lt: "sz < nextPow2 sz" by simp
  then have nz: "nextPow2 sz \<noteq> 0" by auto
  from al have al0: "al \<noteq> 0" unfolding isPow2_iff by (auto simp: exp_eq_zero_iff)
  have z: "(al - 1) AND NOT (al - 1) = 0" by simp
  have "ringBufferAllocate sz al s =
           Inr (0, s\<lparr>ringBufSize := nextPow2 sz, ringBufPtr := sz, lastSyncedRingBufPtr := 0\<rparr>)"
    using big al al0 nz lt
    by (simp add: ringBufferAllocate_def ringBufferFinish_def recreateRingBuffer_def Let_def
        linorder_not_le linorder_not_less)
  moreover from big lt have "ringBufSize s < nextPow2 sz" by simp
  ultimately show ?thesis using p lt lt2 by simp
qed

text \<open>
  Claim C1, as amended.  For a ring buffer whose capacity is a power of two, every
  sequence of \<^verbatim>\<open>ringBufferAllocate(size, alignment)\<close> calls that returns (no
  assertion fails) gives offsets that are multiples of the requested alignment, with
  \<open>[offset, offset + size)\<close> inside \<open>[0, capacity)\<close> of the buffer as it is after the
  call.  The sizes are arbitrary: a request larger than the capacity makes the buffer grow
  first.  The alignments are nonzero powers of two, or the call fails its assertions.
\<close>

theorem ringBufferAllocate_aligned_in_range:
  assumes "isPow2 (ringBufSize s)"
    and "ringBufferAllocateAll reqs s = Inr (outs, s')"
  shows "list_all2 allocation_ok reqs outs"
  using assms
proof (induction reqs arbitrary: s outs)
  case Nil
  then show ?case by simp
next
  case (Cons req reqs)
  obtain sz al where req: "req = (sz, al)" by (cases req)
  from Cons.prems(2) obtain off s1 outs1 where
    a: "ringBufferAllocate sz al s = Inr (off, s1)"
    and b: "ringBufferAllocateAll reqs s1 = Inr (outs1, s')"
    and o: "outs = (off, ringBufSize s1) # outs1"
    by (auto simp: req split: sum.splits prod.splits)
  from ringBufferAllocate_ok [OF Cons.prems(1) a]
  have ok: "unat al dvd unat off" "unat off + unat sz \<le> unat (ringBufSize s1)" "isPow2 (ringBufSize s1)"
    by simp_all
  from ok have hd: "allocation_ok (sz, al) (off, ringBufSize s1)" by (simp add: allocation_ok_def)
  from Cons.IH [OF ok(3) b] have "list_all2 allocation_ok reqs outs1" .
  with hd show ?case by (simp add: req o)
qed

theorem ringBufferAllocate_aligned_in_range_witness:
  "isPow2 (ringBufSize \<lparr>ringBufSize = 64, ringBufPtr = 40, lastSyncedRingBufPtr = 40\<rparr>) \<and>
   ringBufferAllocateAll [(10, 4), (20, 16), (20, 8)]
       \<lparr>ringBufSize = 64, ringBufPtr = 40, lastSyncedRingBufPtr = 40\<rparr> =
     Inr ([(40, 64), (0, 64), (0, 128)],
          \<lparr>ringBufSize = 128, ringBufPtr = 20, lastSyncedRingBufPtr = 0\<rparr>) \<and>
   list_all2 allocation_ok [(10, 4), (20, 16), (20, 8)] [(40, 64), (0, 64), (0, 128)]"
proof -
  have p: "isPow2 (ringBufSize \<lparr>ringBufSize = 64, ringBufPtr = 40, lastSyncedRingBufPtr = 40\<rparr>)"
    by code_simp
  have r: "ringBufferAllocateAll [(10, 4), (20, 16), (20, 8)]
       \<lparr>ringBufSize = 64, ringBufPtr = 40, lastSyncedRingBufPtr = 40\<rparr> =
     Inr ([(40, 64), (0, 64), (0, 128)],
          \<lparr>ringBufSize = 128, ringBufPtr = 20, lastSyncedRingBufPtr = 0\<rparr>)"
    by code_simp
  from ringBufferAllocate_aligned_in_range [OF p r] p r show ?thesis by simp
qed

text \<open>
  Claim C1 as stated fails when the capacity is not a power of two: with capacity 100,
  cursor 98 and everything up to 98 consumed by the GPU, a request of 1 byte aligned to
  16 (size at most the capacity, alignment a nonzero power of two) passes every assertion
  and is given offset \<open>112 mod 100 = 12\<close>, which is not a multiple of 16.
\<close>

theorem ringBufferAllocate_misaligned_counterexample:
  "(1 :: uint) \<le> ringBufSize \<lparr>ringBufSize = 100, ringBufPtr = 98, lastSyncedRingBufPtr = 98\<rparr> \<and>
   (16 :: uint) \<noteq> 0 \<and> isPow2 16 \<and>
   ringBufferAllocate 1 16 \<lparr>ringBufSize = 100, ringBufPtr = 98, lastSyncedRingBufPtr = 98\<rparr> =
     Inr (12, \<lparr>ringBufSize = 100, ringBufPtr = 113, lastSyncedRingBufPtr = 98\<rparr>) \<and>
   \<not> unat (16 :: uint) dvd unat (12 :: uint)"
proof -
  have "isPow2 16" by code_simp
  moreover have "ringBufferAllocate 1 16 \<lparr>ringBufSize = 100, ringBufPtr = 98, lastSyncedRingBufPtr = 98\<rparr> =
     Inr (12, \<lparr>ringBufSize = 100, ringBufPtr = 113, lastSyncedRingBufPtr = 98\<rparr>)"
    by code_simp
  ultimately show ?thesis by simp
qed

text \<open>
  A capacity that is not a power of two can also exceed \<open>2 ^ 31\<close>, and then
  \<^verbatim>\<open>beginPtr + size\<close> wraps around: from a fresh buffer of \<open>2 ^ 32 - 1\<close> bytes, the
  second of two requests is placed at \<open>2 ^ 31\<close> with \<open>2 ^ 31 + 1\<close> bytes, past the end.
\<close>

lemma ringBufferAllocate_wraparound_example:
  "ringBufferAllocateAll [(0x80000000, 1), (0x80000001, 1)]
       \<lparr>ringBufSize = 0xFFFFFFFF, ringBufPtr = 0, lastSyncedRingBufPtr = 0\<rparr> =
     Inr ([(0, 0xFFFFFFFF), (0x80000000, 0xFFFFFFFF)],
          \<lparr>ringBufSize = 0xFFFFFFFF, ringBufPtr = 1, lastSyncedRingBufPtr = 0\<rparr>)"
  by code_simp

theorem ringBufferAllocate_grows_to_nextPow2_witness:
  "ringBufSize \<lparr>ringBufSize = 64, ringBufPtr = 10, lastSyncedRingBufPtr = 0\<rparr> < 100 \<and>
   \<not> isPow2 100 \<and> unat (100 :: uint) \<le> 2 ^ 31 \<and> isPow2 4 \<and>
   ringBufferAllocate 100 4 \<lparr>ringBufSize = 64, ringBufPtr = 10, lastSyncedRingBufPtr = 0\<rparr> =
     Inr (0, \<lparr>ringBufSize = 128, ringBufPtr = 100, lastSyncedRingBufPtr = 0\<rparr>) \<and>
   nextPow2 100 = 128"
proof -
  let ?s = "\<lparr>ringBufSize = 64, ringBufPtr = 10, lastSyncedRingBufPtr = 0\<rparr>"
  have a: "ringBufSize ?s < 100" by simp
  have b: "\<not> isPow2 100" by code_simp
  have c: "unat (100 :: uint) \<le> 2 ^ 31" by simp
  have d: "isPow2 4" by code_simp
  have e: "nextPow2 100 = 128" by code_simp
  from ringBufferAllocate_grows_to_nextPow2 [OF a b c d] a b c d e show ?thesis by simp
qed

text \<open>
  Claim C2 as stated fails.  The request that exceeds the capacity is the one that is
  given offset 0; the cursor is then the request's size, not 0, and the next, smaller
  request continues from there: after \<open>(100, 4)\<close> on a buffer of 64 bytes, the request
  \<open>(10, 4)\<close> is given offset 100.  And a request whose size is itself a power of two
  is not served at all: \<open>(128, 4)\<close> on a buffer of 64 bytes grows the buffer to 128 bytes
  and then fails \<^verbatim>\<open>assert(beginPtr + size < ringBufSize)\<close>.
\<close>

theorem ringBufferAllocate_after_growth_counterexample:
  "ringBufSize \<lparr>ringBufSize = 64, ringBufPtr = 0, lastSyncedRingBufPtr = 0\<rparr> < 100 \<and>
   ringBufferAllocate 100 4 \<lparr>ringBufSize = 64, ringBufPtr = 0, lastSyncedRingBufPtr = 0\<rparr> =
     Inr (0, \<lparr>ringBufSize = 128, ringBufPtr = 100, lastSyncedRingBufPtr = 0\<rparr>) \<and>
   ringBufPtr \<lparr>ringBufSize = 128, ringBufPtr = 100, lastSyncedRingBufPtr = 0\<rparr> \<noteq> 0 \<and>
   (10 :: uint) \<le> 100 \<and>
   ringBufferAllocate 10 4 \<lparr>ringBufSize = 128, ringBufPtr = 100, lastSyncedRingBufPtr = 0\<rparr> =
     Inr (100, \<lparr>ringBufSize = 128, ringBufPtr = 110, lastSyncedRingBufPtr = 0\<rparr>) \<and>
   (100 :: uint) \<noteq> 0 \<and>
   ringBufSize \<lparr>ringBufSize = 64, ringBufPtr = 0, lastSyncedRingBufPtr = 0\<rparr> < 128 \<and>
   nextPow2 128 = 128 \<and>
   ringBufferAllocate 128 4 \<lparr>ringBufSize = 64, ringBufPtr = 0, lastSyncedRingBufPtr = 0\<rparr> =
     Inl AssertionFailed"
proof -
  have "ringBufferAllocate 100 4 \<lparr>ringBufSize = 64, ringBufPtr = 0, lastSyncedRingBufPtr = 0\<rparr> =
     Inr (0, \<lparr>ringBufSize = 128, ringBufPtr = 100, lastSyncedRingBufPtr = 0\<rparr>)"
    by code_simp
  moreover have "ringBufferAllocate 10 4 \<lparr>ringBufSize = 128, ringBufPtr = 100, lastSyncedRingBufPtr = 0\<rparr> =
     Inr (100, \<lparr>ringBufSize = 128, ringBufPtr = 110, lastSyncedRingBufPtr = 0\<rparr>)"
    by code_simp
  moreover have "nextPow2 128 = 128" by code_simp
  moreover have "ringBufferAllocate 128 4 \<lparr>ringBufSize = 64, ringBufPtr = 0, lastSyncedRingBufPtr = 0\<rparr> =
     Inl AssertionFailed"
    by code_simp
  ultimately show ?thesis by simp
qed

section \<open>Verification: cache records\<close>

subsection \<open>Hexadecimal digits\<close>

lemma of_char_digitChar: "d < 16 \<Longrightarrow> (of_char (digitChar d) :: nat) = (if d < 10 then 48 + d else 87 + d)"
  by (simp add: digitChar_def)

lemma plainHex_digitChar: "d < 16 \<Longrightarrow> plainHex (digitChar d)"
  by (simp add: plainHex_def of_char_digitChar)

lemma digitVal_digitChar: "d < 16 \<Longrightarrow> digitVal (digitChar d) = d"
  by (simp add: digitVal_def isdigit_def of_char_digitChar)

lemma plainHex_showHex: "c \<in> set (showHex n) \<Longrightarrow> plainHex c"
proof (induction n arbitrary: c rule: showHex.induct)
  case (1 n)
  show ?case
  proof (cases "n < 16")
    case True
    with "1.prems" show ?thesis by (simp add: showHex.simps [of n] plainHex_digitChar)
  next
    case False
    with "1.prems" have "c \<in> set (showHex (n div 16)) \<or> c = digitChar (n mod 16)"
      by (auto simp add: showHex.simps [of n])
    then show ?thesis
    proof
      assume "c \<in> set (showHex (n div 16))"
      with False "1.IH" show ?thesis by simp
    next
      assume "c = digitChar (n mod 16)"
      then show ?thesis by (simp add: plainHex_digitChar)
    qed
  qed
qed

lemma showHex_nonempty: "showHex n \<noteq> []"
  by (simp add: showHex.simps [of n])

lemma hexValue_showHex:
  "foldl (\<lambda>a c. 16 * a + int (digitVal c)) 0 (showHex n) = int n"
proof (induction n rule: showHex.induct)
  case (1 n)
  show ?case
  proof (cases "n < 16")
    case True
    then show ?thesis by (simp add: showHex.simps [of n] digitVal_digitChar)
  next
    case False
    with "1.IH" have "foldl (\<lambda>a c. 16 * a + int (digitVal c)) 0 (showHex (n div 16)) = int (n div 16)"
      by simp
    with False show ?thesis
      by (simp add: showHex.simps [of n] digitVal_digitChar zdiv_int zmod_int)
  qed
qed

lemma plainHex_facts:
  assumes "plainHex c"
  shows "isxdigit c" "\<not> isspace c" "c \<noteq> CHR ''-''" "c \<noteq> CHR ''+''" "c \<noteq> CHR ''x''" "c \<noteq> CHR ''X''"
    "c \<noteq> CHR 0x00" "c \<noteq> CHR '',''"
  using assms by (auto simp: plainHex_def isxdigit_def isdigit_def isspace_def)

lemma dropWhile_none: "(\<And>c. c \<in> set s \<Longrightarrow> \<not> P c) \<Longrightarrow> dropWhile P s = s"
  by (cases s) auto

lemma takeWhile_all: "(\<And>c. c \<in> set s \<Longrightarrow> P c) \<Longrightarrow> takeWhile P s = s"
  by (simp add: takeWhile_eq_all_conv)

lemma stoull16_plainHex:
  assumes ph: "\<And>c. c \<in> set s \<Longrightarrow> plainHex c" and ne: "s \<noteq> []"
    and v: "foldl (\<lambda>a c. 16 * a + int (digitVal c)) 0 s < 2 ^ 64"
  shows "stoull16 (c_str s) = Some (word_of_int (foldl (\<lambda>a c. 16 * a + int (digitVal c)) 0 s))"
proof -
  have cs: "c_str s = s" unfolding c_str_def by (rule takeWhile_all) (use ph plainHex_facts in blast)
  have dw: "dropWhile isspace s = s" by (rule dropWhile_none) (use ph plainHex_facts in blast)
  from ne obtain c r where s: "s = c # r" by (cases s) auto
  then have "plainHex c" using ph by simp
  then have neg: "\<not> isNegative s" and sg: "skipSign s = s"
    using plainHex_facts [of c] by (simp_all add: isNegative_def skipSign_def s)
  have pre: "skipHexPrefix s = s"
  proof (cases r)
    case Nil
    then show ?thesis by (simp add: skipHexPrefix_def s)
  next
    case (Cons cx r')
    then have "plainHex cx" using ph s by simp
    then have "cx \<noteq> CHR ''x''" "cx \<noteq> CHR ''X''" using plainHex_facts [of cx] by simp_all
    then show ?thesis by (simp add: skipHexPrefix_def s Cons split: list.splits)
  qed
  have tw: "takeWhile isxdigit s = s" by (rule takeWhile_all) (use ph plainHex_facts in blast)
  show ?thesis using v ne neg
    by (simp add: stoull16_def cs dw sg pre tw Let_def)
qed

lemma stoull16_showHex: "stoull16 (c_str (showHex (unat (h :: uint64)))) = Some h"
proof -
  have "unat h < 2 ^ 64" using unsigned_less [of h] by simp
  then have "int (unat h) < 2 ^ 64" by (simp only: of_nat_less_numeral_power_cancel_iff)
  then have "foldl (\<lambda>a c. 16 * a + int (digitVal c)) 0 (showHex (unat h)) < 2 ^ 64"
    by (simp only: hexValue_showHex)
  from stoull16_plainHex [OF plainHex_showHex showHex_nonempty this]
  show ?thesis by (simp add: hexValue_showHex)
qed

lemma split_comma_nonempty: "split_comma s \<noteq> []"
  by (induction s) (auto split: list.splits)

lemma split_comma_plain: "CHR '','' \<notin> set f \<Longrightarrow> split_comma f = [f]"
  by (induction f) auto

lemma split_comma_field:
  "CHR '','' \<notin> set f \<Longrightarrow> split_comma (f @ CHR '','' # rest) = f # split_comma rest"
  by (induction f) (auto split: list.splits)

lemma split_comma_fields:
  "CHR '','' \<notin> set f \<Longrightarrow> (\<And>g. g \<in> set fs \<Longrightarrow> CHR '','' \<notin> set g) \<Longrightarrow>
     split_comma (f @ concat (map (\<lambda>g. '','' @ g) fs)) = f # fs"
proof (induction fs arbitrary: f)
  case Nil
  then show ?case by (simp add: split_comma_plain)
next
  case (Cons g fs)
  have "split_comma (g @ concat (map (\<lambda>g. '','' @ g) fs)) = g # fs"
    by (rule Cons.IH) (use Cons.prems in auto)
  with Cons.prems(1) show ?case by (simp add: split_comma_field)
qed

lemma showDec_20: "showDec 20 = ''20''"
  by code_simp

lemma atoi_20: "atoi (c_str ''20'') = 20"
  by code_simp

text \<open>
  Claim C6, as amended.  For every CacheData whose version is the current
  \<^verbatim>\<open>shaderVersion\<close> and whose dependency paths contain no comma, whatever the 64-bit
  hash and however many dependencies, parsing the line that \<^verbatim>\<open>serialize\<close> produces
  gives the record back.
\<close>

theorem parse_serialize_roundtrip:
  assumes v: "version c = shaderVersion"
    and d: "\<forall>f \<in> set (dependencies c). CHR '','' \<notin> set f"
  shows "parse (serialize c) = c"
proof -
  let ?h = "showHex (unat (hash c))"
  have hc: "CHR '','' \<notin> set ?h" using plainHex_showHex plainHex_facts(8) by blast
  have "serialize c = ''20'' @ concat (map (\<lambda>g. '','' @ g) (?h # dependencies c))"
    by (simp add: serialize_def v shaderVersion_def showDec_20)
  moreover have "split_comma (''20'' @ concat (map (\<lambda>g. '','' @ g) (?h # dependencies c))) = ''20'' # ?h # dependencies c"
    by (rule split_comma_fields) (use hc d in auto)
  ultimately have sp: "split_comma (serialize c) = ''20'' # ?h # dependencies c" by simp
  have "parse (serialize c) = \<lparr>version = 20, hash = hash c, dependencies = dependencies c\<rparr>"
    by (cases "dependencies c")
      (simp_all add: parse_def sp Let_def atoi_20 shaderVersion_def stoull16_showHex CacheData_default_def)
  also have "\<dots> = c" using v by (simp add: shaderVersion_def)
  finally show ?thesis .
qed

theorem parse_serialize_roundtrip_witness:
  "version \<lparr>version = 20, hash = 0xbeef, dependencies = [''smaa.h'', ''inc/utils.h'']\<rparr> = shaderVersion \<and>
   CHR '','' \<notin> set ''smaa.h'' \<and> CHR '','' \<notin> set ''inc/utils.h'' \<and>
   serialize \<lparr>version = 20, hash = 0xbeef, dependencies = [''smaa.h'', ''inc/utils.h'']\<rparr> =
     ''20,beef,smaa.h,inc/utils.h'' \<and>
   parse ''20,beef,smaa.h,inc/utils.h'' =
     \<lparr>version = 20, hash = 0xbeef, dependencies = [''smaa.h'', ''inc/utils.h'']\<rparr>"
proof -
  let ?c = "\<lparr>version = 20, hash = 0xbeef, dependencies = [''smaa.h'', ''inc/utils.h'']\<rparr>"
  have a: "version ?c = shaderVersion" by (simp add: shaderVersion_def)
  have b1: "CHR '','' \<notin> set ''smaa.h''" by simp
  have b2: "CHR '','' \<notin> set ''inc/utils.h''" by simp
  from b1 b2 have b: "\<forall>f \<in> set (dependencies ?c). CHR '','' \<notin> set f" by simp
  have s: "serialize ?c = ''20,beef,smaa.h,inc/utils.h''"
    by (simp add: serialize_def showDec.simps showHex.simps digitChar_def char_of_def bit_0)
  from parse_serialize_roundtrip [OF a b] s
  have p: "parse ''20,beef,smaa.h,inc/utils.h'' = ?c" by simp
  show ?thesis by (intro conjI a b1 b2 s p)
qed

text \<open>
  Claim C6 as stated fails for a version other than \<^verbatim>\<open>shaderVersion\<close>, where
  \<^verbatim>\<open>parse\<close> stops after the version and leaves the hash 0 and the dependencies empty,
  and for a dependency path with a comma, which comes back as two paths.
\<close>

theorem parse_serialize_counterexample:
  "parse (serialize \<lparr>version = 5, hash = 7, dependencies = []\<rparr>) =
     \<lparr>version = 5, hash = 0, dependencies = []\<rparr> \<and>
   \<lparr>version = 5, hash = 0, dependencies = []\<rparr> \<noteq> \<lparr>version = 5, hash = 7, dependencies = []\<rparr> \<and>
   parse (serialize \<lparr>version = 20, hash = 7, dependencies = [''a,b'']\<rparr>) =
     \<lparr>version = 20, hash = 7, dependencies = [''a'', ''b'']\<rparr> \<and>
   \<lparr>version = 20, hash = 7, dependencies = [''a'', ''b'']\<rparr> \<noteq>
     \<lparr>version = 20, hash = 7, dependencies = [''a,b'']\<rparr>"
proof -
  have "parse (serialize \<lparr>version = 5, hash = 7, dependencies = []\<rparr>) =
     \<lparr>version = 5, hash = 0, dependencies = []\<rparr>"
    by code_simp
  moreover have "parse (serialize \<lparr>version = 20, hash = 7, dependencies = [''a,b'']\<rparr>) =
     \<lparr>version = 20, hash = 7, dependencies = [''a'', ''b'']\<rparr>"
    by code_simp
  ultimately show ?thesis by simp
qed

section \<open>Verification: shader names\<close>

lemma shaderName_concat:
  "shaderName name macros = name @ concat (map (\<lambda>s. CHR ''_'' # s) (sort (map macroString macros)))"
proof -
  have "foldl (\<lambda>acc s. acc @ ''_'' @ s) acc xs = acc @ concat (map (\<lambda>s. CHR ''_'' # s) xs)" for acc xs
    by (induction xs arbitrary: acc) simp_all
  then show ?thesis by (simp add: shaderName_def)
qed

lemma append_sep_eq:
  assumes "x @ r = y @ r'"
    and "c \<notin> set x" "c \<notin> set y"
    and "r = [] \<or> hd r = c" "r' = [] \<or> hd r' = c"
  shows "x = y \<and> r = r'"
proof -
  have tw: "takeWhile (\<lambda>d. d \<noteq> c) (z @ q) = z" if "c \<notin> set z" "q = [] \<or> hd q = c" for z q
    using that by (induction z) (auto simp: takeWhile_eq_Nil_iff)
  have tx: "takeWhile (\<lambda>d. d \<noteq> c) (x @ r) = x" by (rule tw [OF assms(2,4)])
  have ty: "takeWhile (\<lambda>d. d \<noteq> c) (y @ r') = y" by (rule tw [OF assms(3,5)])
  from tx ty assms(1) have "x = y" by simp
  with assms(1) show ?thesis by simp
qed

lemma joined_inj:
  assumes "\<And>x. x \<in> set xs \<Longrightarrow> CHR ''_'' \<notin> set x"
    and "\<And>y. y \<in> set ys \<Longrightarrow> CHR ''_'' \<notin> set y"
    and "concat (map (\<lambda>s. CHR ''_'' # s) xs) = concat (map (\<lambda>s. CHR ''_'' # s) ys)"
  shows "xs = ys"
  using assms
proof (induction xs arbitrary: ys)
  case Nil
  then show ?case by (cases ys) auto
next
  case (Cons x xs)
  show ?case
  proof (cases ys)
    case Nil
    with Cons.prems(3) show ?thesis by simp
  next
    case (Cons y ys')
    let ?r = "concat (map (\<lambda>s. CHR ''_'' # s) xs)"
    let ?r' = "concat (map (\<lambda>s. CHR ''_'' # s) ys')"
    from Cons.prems(3) Cons have e: "x @ ?r = y @ ?r'" by simp
    have hx: "?r = [] \<or> hd ?r = CHR ''_''" by (cases xs) auto
    have hy: "?r' = [] \<or> hd ?r' = CHR ''_''" by (cases ys') auto
    have nx: "CHR ''_'' \<notin> set x" using Cons.prems(1) by simp
    have ny: "CHR ''_'' \<notin> set y" using Cons.prems(2) Cons by simp
    from append_sep_eq [OF e nx ny hx hy] have xy: "x = y" and rr: "?r = ?r'" by simp_all
    have "xs = ys'"
      by (rule Cons.IH) (use Cons.prems Cons rr in auto)
    with xy Cons show ?thesis by simp
  qed
qed

lemma macroString_inj:
  assumes "macroString (n, v) = macroString (n', v')"
    and "CHR ''='' \<notin> set n" "CHR ''='' \<notin> set n'"
  shows "n = n' \<and> v = v'"
proof (cases "v = []")
  case True
  show ?thesis
  proof (cases "v' = []")
    case True
    with \<open>v = []\<close> assms(1) show ?thesis by (simp add: macroString_def)
  next
    case False
    with True assms(1) have "n = n' @ CHR ''='' # v'" by (simp add: macroString_def)
    with assms(2) show ?thesis by simp
  qed
next
  case False
  show ?thesis
  proof (cases "v' = []")
    case True
    with False assms(1) have "n' = n @ CHR ''='' # v" by (simp add: macroString_def)
    with assms(3) show ?thesis by simp
  next
    case v': False
    with False assms(1) have e: "n @ (CHR ''='' # v) = n' @ (CHR ''='' # v')" by (simp add: macroString_def)
    from append_sep_eq [OF e assms(2) assms(3)] show ?thesis by simp
  qed
qed

lemma plainMacro_string: "plainMacro m \<Longrightarrow> CHR ''_'' \<notin> set (macroString m)"
  by (auto simp: plainMacro_def macroString_def Let_def split: if_splits)

lemma shaderName_differs:
  assumes p1: "\<forall>m \<in> set macros1. plainMacro m"
    and p2: "\<forall>m \<in> set macros2. plainMacro m"
    and ne: "set macros1 \<noteq> set macros2"
  shows "shaderName name macros1 \<noteq> shaderName name macros2"
proof
  assume "shaderName name macros1 = shaderName name macros2"
  then have c: "concat (map (\<lambda>s. CHR ''_'' # s) (sort (map macroString macros1))) =
      concat (map (\<lambda>s. CHR ''_'' # s) (sort (map macroString macros2)))"
    by (simp add: shaderName_concat)
  have "sort (map macroString macros1) = sort (map macroString macros2)"
    by (rule joined_inj [OF _ _ c]) (use p1 p2 plainMacro_string in auto)
  then have "set (sort (map macroString macros1)) = set (sort (map macroString macros2))"
    by simp
  then have img: "macroString ` set macros1 = macroString ` set macros2" by simp
  have inj: "inj_on macroString (set macros1 \<union> set macros2)"
  proof (rule inj_onI)
    fix a b
    assume a: "a \<in> set macros1 \<union> set macros2" and b: "b \<in> set macros1 \<union> set macros2"
      and e: "macroString a = macroString b"
    from a p1 p2 have pa: "CHR ''='' \<notin> set (fst a)" by (auto simp: plainMacro_def)
    from b p1 p2 have pb: "CHR ''='' \<notin> set (fst b)" by (auto simp: plainMacro_def)
    from macroString_inj [of "fst a" "snd a" "fst b" "snd b"] e pa pb
    show "a = b" by (simp add: prod_eq_iff)
  qed
  from inj img have "set macros1 = set macros2"
    by (intro inj_on_image_eq_iff [THEN iffD1, OF inj]) auto
  with ne show False by simp
qed

lemma shaderName_permutation:
  assumes "mset macros1 = mset macros2"
  shows "shaderName name macros1 = shaderName name macros2"
proof -
  from assms have "mset (map macroString macros1) = mset (map macroString macros2)"
    by (metis mset_map)
  then have "mset (sort (map macroString macros2)) = mset (map macroString macros1)"
    by simp
  then have "sort (map macroString macros1) = sort (map macroString macros2)"
    by (rule properties_for_sort) simp
  then show ?thesis by (simp add: shaderName_def)
qed

text \<open>
  Claim C7, as amended.  The disambiguated name does not depend on the order in which
  the macros are visited: two lists with the same entries, in any order, give the same
  name.  And for macro sets in which no name contains \<open>_\<close> or \<open>=\<close> and no value
  contains \<open>_\<close>, the name is injective in the macro set: for every source name, two
  macro sets with different entries give different names.
\<close>

theorem shaderName_injective:
  "(mset macros1 = mset macros2 \<longrightarrow> shaderName name macros1 = shaderName name macros2) \<and>
   ((\<forall>m \<in> set macros1. plainMacro m) \<longrightarrow> (\<forall>m \<in> set macros2. plainMacro m) \<longrightarrow>
      set macros1 \<noteq> set macros2 \<longrightarrow>
      shaderName name macros1 \<noteq> shaderName name macros2)"
proof (intro conjI impI)
  assume "mset macros1 = mset macros2"
  then show "shaderName name macros1 = shaderName name macros2" by (rule shaderName_permutation)
next
  assume "\<forall>m \<in> set macros1. plainMacro m" "\<forall>m \<in> set macros2. plainMacro m"
    "set macros1 \<noteq> set macros2"
  then show "shaderName name macros1 \<noteq> shaderName name macros2" by (rule shaderName_differs)
qed

lemma set_neq_by_member: "x \<in> set xs \<Longrightarrow> x \<notin> set ys \<Longrightarrow> set xs \<noteq> set ys"
  by blast

theorem shaderName_injective_witness:
  "plainMacro (''EDGE'', '''') \<and> plainMacro (''PRESET'', ''HIGH'') \<and> plainMacro (''PRESET'', ''LOW'') \<and>
   set [(''EDGE'', ''''), (''PRESET'', ''HIGH'')] \<noteq> set [(''PRESET'', ''LOW''), (''EDGE'', '''')] \<and>
   shaderName ''smaa.frag'' [(''EDGE'', ''''), (''PRESET'', ''HIGH'')] = ''smaa.frag_EDGE_PRESET=HIGH'' \<and>
   shaderName ''smaa.frag'' [(''PRESET'', ''LOW''), (''EDGE'', '''')] = ''smaa.frag_EDGE_PRESET=LOW'' \<and>
   shaderName ''smaa.frag'' [(''EDGE'', ''''), (''PRESET'', ''HIGH'')] \<noteq>
     shaderName ''smaa.frag'' [(''PRESET'', ''LOW''), (''EDGE'', '''')] \<and>
   mset [(''PRESET'', ''HIGH''), (''EDGE'', '''')] = mset [(''EDGE'', ''''), (''PRESET'', ''HIGH'')] \<and>
   shaderName ''smaa.frag'' [(''PRESET'', ''HIGH''), (''EDGE'', '''')] = ''smaa.frag_EDGE_PRESET=HIGH''"
proof -
  have m1: "plainMacro (''EDGE'', '''')" by (simp add: plainMacro_def)
  have m2: "plainMacro (''PRESET'', ''HIGH'')" by (simp add: plainMacro_def)
  have m3: "plainMacro (''PRESET'', ''LOW'')" by (simp add: plainMacro_def)
  from m1 m2 have a: "\<forall>m \<in> set [(''EDGE'', ''''), (''PRESET'', ''HIGH'')]. plainMacro m" by simp
  from m1 m3 have b: "\<forall>m \<in> set [(''PRESET'', ''LOW''), (''EDGE'', '''')]. plainMacro m" by simp
  have c: "set [(''EDGE'', ''''), (''PRESET'', ''HIGH'')] \<noteq> set [(''PRESET'', ''LOW''), (''EDGE'', '''')]"
    by (rule set_neq_by_member [of "(''PRESET'', ''HIGH'')"]) simp_all
  have d: "shaderName ''smaa.frag'' [(''EDGE'', ''''), (''PRESET'', ''HIGH'')] = ''smaa.frag_EDGE_PRESET=HIGH''"
    by code_simp
  have e: "shaderName ''smaa.frag'' [(''PRESET'', ''LOW''), (''EDGE'', '''')] = ''smaa.frag_EDGE_PRESET=LOW''"
    by code_simp
  have p: "mset [(''PRESET'', ''HIGH''), (''EDGE'', '''')] = mset [(''EDGE'', ''''), (''PRESET'', ''HIGH'')]"
    by (simp only: mset.simps add_mset_commute)
  note T1 = shaderName_injective [where ?macros1.0 = "[(''EDGE'', ''''), (''PRESET'', ''HIGH'')]"
      and ?macros2.0 = "[(''PRESET'', ''LOW''), (''EDGE'', '''')]" and name = "''smaa.frag''"]
  from T1 a b c have f: "shaderName ''smaa.frag'' [(''EDGE'', ''''), (''PRESET'', ''HIGH'')] \<noteq>
     shaderName ''smaa.frag'' [(''PRESET'', ''LOW''), (''EDGE'', '''')]" by blast
  note T2 = shaderName_injective [where ?macros1.0 = "[(''PRESET'', ''HIGH''), (''EDGE'', '''')]"
      and ?macros2.0 = "[(''EDGE'', ''''), (''PRESET'', ''HIGH'')]" and name = "''smaa.frag''"]
  from T2 p have "shaderName ''smaa.frag'' [(''PRESET'', ''HIGH''), (''EDGE'', '''')] =
      shaderName ''smaa.frag'' [(''EDGE'', ''''), (''PRESET'', ''HIGH'')]" by blast
  then have g: "shaderName ''smaa.frag'' [(''PRESET'', ''HIGH''), (''EDGE'', '''')] = ''smaa.frag_EDGE_PRESET=HIGH''"
    by (simp only: d)
  show ?thesis by (intro conjI m1 m2 m3 c d e f p g)
qed

text \<open>
  Claim C7 as stated fails: nothing escapes the separators.  A value with \<open>_\<close>, a name
  with \<open>_\<close> and a name with \<open>=\<close> each give two different macro sets with the same
  disambiguated name.
\<close>

theorem shaderName_collision_counterexample:
  "set [(''A'', ''B_C'')] \<noteq> set [(''A'', ''B''), (''C'', '''')] \<and>
   shaderName ''s.frag'' [(''A'', ''B_C'')] = ''s.frag_A=B_C'' \<and>
   shaderName ''s.frag'' [(''A'', ''B''), (''C'', '''')] = ''s.frag_A=B_C'' \<and>
   set [(''A_B'', '''')] \<noteq> set [(''A'', ''''), (''B'', '''')] \<and>
   shaderName ''s.frag'' [(''A_B'', '''')] = ''s.frag_A_B'' \<and>
   shaderName ''s.frag'' [(''A'', ''''), (''B'', '''')] = ''s.frag_A_B'' \<and>
   set [(''A=B'', '''')] \<noteq> set [(''A'', ''B'')] \<and>
   shaderName ''s.frag'' [(''A=B'', '''')] = ''s.frag_A=B'' \<and>
   shaderName ''s.frag'' [(''A'', ''B'')] = ''s.frag_A=B''"
proof -
  have a: "shaderName ''s.frag'' [(''A'', ''B_C'')] = ''s.frag_A=B_C''" by code_simp
  have b: "shaderName ''s.frag'' [(''A'', ''B''), (''C'', '''')] = ''s.frag_A=B_C''" by code_simp
  have c: "shaderName ''s.frag'' [(''A_B'', '''')] = ''s.frag_A_B''" by code_simp
  have d: "shaderName ''s.frag'' [(''A'', ''''), (''B'', '''')] = ''s.frag_A_B''" by code_simp
  have e: "shaderName ''s.frag'' [(''A=B'', '''')] = ''s.frag_A=B''" by code_simp
  have f: "shaderName ''s.frag'' [(''A'', ''B'')] = ''s.frag_A=B''" by code_simp
  have g: "set [(''A'', ''B_C'')] \<noteq> set [(''A'', ''B''), (''C'', '''')]"
    by (rule set_neq_by_member [of "(''A'', ''B_C'')"]) simp_all
  have h: "set [(''A_B'', '''')] \<noteq> set [(''A'', ''''), (''B'', '''')]"
    by (rule set_neq_by_member [of "(''A_B'', '''')"]) simp_all
  have i: "set [(''A=B'', '''')] \<noteq> set [(''A'', ''B'')]"
    by (rule set_neq_by_member [of "(''A=B'', '''')"]) simp_all
  show ?thesis by (intro conjI a b c d e f g h i)
qed

section \<open>Verification: cache lookup\<close>

text \<open>
  Claim C5.  \<^verbatim>\<open>loadCachedSPV\<close> returns false, loading nothing, whenever the version
  of the parsed cache record differs from \<^verbatim>\<open>shaderVersion\<close> (whatever the time stamps),
  whenever the binary file that the record's hash names is missing, whenever the source
  file is newer than the cache record, and whenever a dependency listed in the record is
  newer than the cache record.
\<close>

theorem loadCachedSPV_miss:
  assumes "version (cacheRecordOf fs dir shaderName') \<noteq> shaderVersion
         \<or> \<not> fileExists fs (dir @ hashFileName (hash (cacheRecordOf fs dir shaderName')) @ ''.spv'')
         \<or> getFileTimestamp fs name > getFileTimestamp fs (dir @ shaderName' @ ''.cache'')
         \<or> (\<exists>f \<in> set (dependencies (cacheRecordOf fs dir shaderName')).
               getFileTimestamp fs f > getFileTimestamp fs (dir @ shaderName' @ ''.cache''))"
  shows "loadCachedSPV fs dir name shaderName' = None"
  using assms by (auto simp: loadCachedSPV_def cacheRecordOf_def Let_def)

lemma example_record: "parse ''20,1f,inc.h'' = \<lparr>version = 20, hash = 0x1f, dependencies = [''inc.h'']\<rparr>"
  by code_simp

lemma example_old_record: "parse ''19,1f,inc.h'' = \<lparr>version = 19, hash = 0, dependencies = []\<rparr>"
  by code_simp

lemma example_hashFileName: "hashFileName 0x1f = ''0000001f''"
  by code_simp

theorem loadCachedSPV_miss_witness:
  "loadCachedSPV (exampleFiles ''20,1f,inc.h'' True 50 60) ''c/'' ''s.frag'' ''s.frag_A'' = Some ''ABCDEFGH'' \<and>
   version (cacheRecordOf (exampleFiles ''19,1f,inc.h'' True 50 60) ''c/'' ''s.frag_A'') \<noteq> shaderVersion \<and>
   loadCachedSPV (exampleFiles ''19,1f,inc.h'' True 50 60) ''c/'' ''s.frag'' ''s.frag_A'' = None \<and>
   \<not> fileExists (exampleFiles ''20,1f,inc.h'' False 50 60) ''c/0000001f.spv'' \<and>
   loadCachedSPV (exampleFiles ''20,1f,inc.h'' False 50 60) ''c/'' ''s.frag'' ''s.frag_A'' = None \<and>
   getFileTimestamp (exampleFiles ''20,1f,inc.h'' True 101 60) ''s.frag'' >
     getFileTimestamp (exampleFiles ''20,1f,inc.h'' True 101 60) ''c/s.frag_A.cache'' \<and>
   loadCachedSPV (exampleFiles ''20,1f,inc.h'' True 101 60) ''c/'' ''s.frag'' ''s.frag_A'' = None \<and>
   getFileTimestamp (exampleFiles ''20,1f,inc.h'' True 50 101) ''inc.h'' >
     getFileTimestamp (exampleFiles ''20,1f,inc.h'' True 50 101) ''c/s.frag_A.cache'' \<and>
   loadCachedSPV (exampleFiles ''20,1f,inc.h'' True 50 101) ''c/'' ''s.frag'' ''s.frag_A'' = None"
proof -
  have hit: "loadCachedSPV (exampleFiles ''20,1f,inc.h'' True 50 60) ''c/'' ''s.frag'' ''s.frag_A'' = Some ''ABCDEFGH''"
    by (simp add: loadCachedSPV_def exampleFiles_def example_record example_hashFileName shaderVersion_def)
  have v: "version (cacheRecordOf (exampleFiles ''19,1f,inc.h'' True 50 60) ''c/'' ''s.frag_A'') \<noteq> shaderVersion"
    by (simp add: cacheRecordOf_def exampleFiles_def example_old_record shaderVersion_def)
  have m: "\<not> fileExists (exampleFiles ''20,1f,inc.h'' False 50 60)
             (''c/'' @ hashFileName (hash (cacheRecordOf (exampleFiles ''20,1f,inc.h'' False 50 60) ''c/'' ''s.frag_A'')) @ ''.spv'')"
    by (simp add: cacheRecordOf_def exampleFiles_def example_record example_hashFileName)
  have m': "\<not> fileExists (exampleFiles ''20,1f,inc.h'' False 50 60) ''c/0000001f.spv''"
    by (simp add: exampleFiles_def)
  have t: "getFileTimestamp (exampleFiles ''20,1f,inc.h'' True 101 60) ''s.frag'' >
     getFileTimestamp (exampleFiles ''20,1f,inc.h'' True 101 60) (''c/'' @ ''s.frag_A'' @ ''.cache'')"
    by (simp add: exampleFiles_def)
  have t': "getFileTimestamp (exampleFiles ''20,1f,inc.h'' True 101 60) ''s.frag'' >
     getFileTimestamp (exampleFiles ''20,1f,inc.h'' True 101 60) ''c/s.frag_A.cache''"
    by (simp add: exampleFiles_def)
  have d: "\<exists>f \<in> set (dependencies (cacheRecordOf (exampleFiles ''20,1f,inc.h'' True 50 101) ''c/'' ''s.frag_A'')).
      getFileTimestamp (exampleFiles ''20,1f,inc.h'' True 50 101) f >
      getFileTimestamp (exampleFiles ''20,1f,inc.h'' True 50 101) (''c/'' @ ''s.frag_A'' @ ''.cache'')"
    by (simp add: cacheRecordOf_def exampleFiles_def example_record)
  have d': "getFileTimestamp (exampleFiles ''20,1f,inc.h'' True 50 101) ''inc.h'' >
     getFileTimestamp (exampleFiles ''20,1f,inc.h'' True 50 101) ''c/s.frag_A.cache''"
    by (simp add: exampleFiles_def)
  have r1: "loadCachedSPV (exampleFiles ''19,1f,inc.h'' True 50 60) ''c/'' ''s.frag'' ''s.frag_A'' = None"
    by (rule loadCachedSPV_miss) (rule disjI1, rule v)
  have r2: "loadCachedSPV (exampleFiles ''20,1f,inc.h'' False 50 60) ''c/'' ''s.frag'' ''s.frag_A'' = None"
    by (rule loadCachedSPV_miss) (rule disjI2, rule disjI1, rule m)
  have r3: "loadCachedSPV (exampleFiles ''20,1f,inc.h'' True 101 60) ''c/'' ''s.frag'' ''s.frag_A'' = None"
    by (rule loadCachedSPV_miss) (rule disjI2, rule disjI2, rule disjI1, rule t)
  have r4: "loadCachedSPV (exampleFiles ''20,1f,inc.h'' True 50 101) ''c/'' ''s.frag'' ''s.frag_A'' = None"
    by (rule loadCachedSPV_miss) (rule disjI2, rule disjI2, rule disjI2, rule d)
  show ?thesis by (intro conjI hit v r1 m' r2 t' r3 d' r4)
qed

section \<open>Verification: frames, pipelines and buffers\<close>

subsection \<open>What the ring buffer allocator leaves alone\<close>

lemma ringBufferFinish_preserves:
  assumes "\<And>a t. f (t\<lparr>ringBufSize := a\<rparr>) = f t"
    and "\<And>a t. f (t\<lparr>ringBufPtr := a\<rparr>) = f t"
    and "\<And>a t. f (t\<lparr>lastSyncedRingBufPtr := a\<rparr>) = f t"
    and "ringBufferFinish sz ap bp s = Inr (off, s')"
  shows "f s' = f s"
  using assms(4)
  by (auto simp: ringBufferFinish_def recreateRingBuffer_def Let_def assms(1-3) split: if_splits)

lemma ringBufferAllocate_preserves:
  assumes f: "\<And>a t. f (t\<lparr>ringBufSize := a\<rparr>) = f t"
    "\<And>a t. f (t\<lparr>ringBufPtr := a\<rparr>) = f t"
    "\<And>a t. f (t\<lparr>lastSyncedRingBufPtr := a\<rparr>) = f t"
    and r: "ringBufferAllocate sz al s = Inr (off, s')"
  shows "f s' = f s"
proof -
  define s1 where "s1 = (if sz > ringBufSize s then recreateRingBuffer (nextPow2 sz) s else s)"
  have f1: "f s1 = f s" by (simp add: s1_def recreateRingBuffer_def f)
  from r obtain ap bp t where fin: "ringBufferFinish sz ap bp t = Inr (off, s')"
    and t: "t = s1 \<or> (\<exists>a. t = s1\<lparr>ringBufPtr := a\<rparr>)"
    unfolding ringBufferAllocate_def Let_def s1_def [symmetric]
    by (auto split: if_splits)
  from t have "f t = f s1" by (auto simp: f)
  with ringBufferFinish_preserves [OF f fin] f1 show ?thesis by simp
qed

lemma releaseEphemeralBuffers_frame:
  "releaseEphemeralBuffers hs s = Inr s' \<Longrightarrow> \<exists>bs. s' = s\<lparr>buffers := bs\<rparr>"
proof (induction hs arbitrary: s)
  case Nil
  then have "s' = s\<lparr>buffers := buffers s\<rparr>" by simp
  then show ?case by blast
next
  case (Cons h hs)
  from Cons.prems obtain bs where "releaseEphemeralBuffers hs (s\<lparr>buffers := bs\<rparr>) = Inr s'"
    by (auto split: sum.splits if_splits)
  from Cons.IH [OF this] obtain bs' where "s' = s\<lparr>buffers := bs, buffers := bs'\<rparr>" by blast
  then have "s' = s\<lparr>buffers := bs'\<rparr>" by simp
  then show ?case by blast
qed






subsection \<open>Binding a pipeline\<close>







subsection \<open>The guards of presentFrame\<close>

lemma inRenderPass_buffers_commute:
  "(s :: renderer)\<lparr>inRenderPass := b, buffers := bs\<rparr> = s\<lparr>buffers := bs, inRenderPass := b\<rparr>"
  by simp

lemma inRenderPass_present_commute:
  "(s :: renderer)\<lparr>inRenderPass := b, inFrame := False\<rparr> = s\<lparr>inFrame := False, inRenderPass := b\<rparr>"
  "(s :: renderer)\<lparr>inRenderPass := b, renderTargets := x\<rparr> = s\<lparr>renderTargets := x, inRenderPass := b\<rparr>"
  "(s :: renderer)\<lparr>inRenderPass := b, ephemeralBuffers := y\<rparr> = s\<lparr>ephemeralBuffers := y, inRenderPass := b\<rparr>"
  by simp_all

lemma releaseEphemeralBuffers_inRenderPass:
  "releaseEphemeralBuffers hs (s\<lparr>inRenderPass := b\<rparr>) =
     (case releaseEphemeralBuffers hs s of Inl e \<Rightarrow> Inl e | Inr s' \<Rightarrow> Inr (s'\<lparr>inRenderPass := b\<rparr>))"
proof (induction hs arbitrary: s)
  case Nil
  show ?case by simp
next
  case (Cons h hs)
  show ?case
    by (simp add: inRenderPass_buffers_commute Cons.IH container_get_def container_remove_def
        split: sum.splits option.splits)
qed

lemma presentFrame_inRenderPass:
  "presentFrame image' glName (s\<lparr>inRenderPass := b\<rparr>) =
     (case presentFrame image' glName s of Inl e \<Rightarrow> Inl e | Inr s' \<Rightarrow> Inr (s'\<lparr>inRenderPass := b\<rparr>))"
proof -
  have e: "ensureReadFBO glName rt (t\<lparr>inRenderPass := b\<rparr>) = ensureReadFBO glName rt t" for rt t
    by (simp add: ensureReadFBO_def)
  show ?thesis
    by (simp add: presentFrame_def Let_def e inRenderPass_present_commute
        releaseEphemeralBuffers_inRenderPass split: sum.splits)
qed

text \<open>
  Claim C3, as amended.  \<^verbatim>\<open>presentFrame\<close> requires the renderer to be inside a frame
  and the target's \<^verbatim>\<open>currentLayout\<close> to be TransferSrc: when either fails, the call
  fails an assertion.  Whether a render pass is open is not checked: the call does the
  same inside a render pass as outside, and leaves \<^verbatim>\<open>inRenderPass\<close> as it was.
\<close>

theorem presentFrame_guards:
  "(\<not> inFrame s \<longrightarrow> presentFrame image' glName s = Inl AssertionFailed) \<and>
   (inFrame s \<longrightarrow> container_get image' (renderTargets s) = Inr rt \<longrightarrow>
      currentLayout rt \<noteq> TransferSrc \<longrightarrow>
      presentFrame image' glName s = Inl AssertionFailed) \<and>
   presentFrame image' glName (s\<lparr>inRenderPass := b\<rparr>) =
     (case presentFrame image' glName s of
        Inl e \<Rightarrow> Inl e
      | Inr s' \<Rightarrow> Inr (s'\<lparr>inRenderPass := b\<rparr>))"
proof (intro conjI impI)
  assume "\<not> inFrame s"
  then show "presentFrame image' glName s = Inl AssertionFailed" by (simp add: presentFrame_def)
next
  assume "inFrame s" "container_get image' (renderTargets s) = Inr rt" "currentLayout rt \<noteq> TransferSrc"
  then show "presentFrame image' glName s = Inl AssertionFailed"
    by (simp add: presentFrame_def Let_def)
next
  show "presentFrame image' glName (s\<lparr>inRenderPass := b\<rparr>) =
     (case presentFrame image' glName s of
        Inl e \<Rightarrow> Inl e
      | Inr s' \<Rightarrow> Inr (s'\<lparr>inRenderPass := b\<rparr>))"
    by (rule presentFrame_inRenderPass)
qed

theorem presentFrame_guards_witness:
  "\<not> inFrame exampleRenderer \<and>
   presentFrame 1 9 exampleRenderer = Inl AssertionFailed \<and>
   inFrame exampleColorAttachment \<and>
   container_get 1 (renderTargets exampleColorAttachment) =
     Inr \<lparr>rt_width = 256, rt_height = 256, currentLayout = ColorAttachment, texture = 1, readFBO = 0\<rparr> \<and>
   presentFrame 1 9 exampleColorAttachment = Inl AssertionFailed \<and>
   presentFrame 1 9 exampleInFrame = Inr (examplePresented exampleInFrame) \<and>
   presentFrame 1 9 (exampleInFrame\<lparr>inRenderPass := True\<rparr>) =
     Inr ((examplePresented exampleInFrame)\<lparr>inRenderPass := True\<rparr>)"
proof -
  have a: "\<not> inFrame exampleRenderer" by code_simp
  have b: "inFrame exampleColorAttachment" by code_simp
  have c: "container_get 1 (renderTargets exampleColorAttachment) =
     Inr \<lparr>rt_width = 256, rt_height = 256, currentLayout = ColorAttachment, texture = 1, readFBO = 0\<rparr>"
    by code_simp
  have d: "currentLayout \<lparr>rt_width = 256, rt_height = 256, currentLayout = ColorAttachment, texture = 1, readFBO = 0\<rparr>
      \<noteq> TransferSrc" by simp
  have e: "presentFrame 1 9 exampleInFrame = Inr (examplePresented exampleInFrame)" by code_simp
  from presentFrame_guards [where s = exampleRenderer and image' = 1 and glName = 9] a
  have r1: "presentFrame 1 9 exampleRenderer = Inl AssertionFailed" by blast
  from presentFrame_guards [where s = exampleColorAttachment and image' = 1 and glName = 9
      and rt = "\<lparr>rt_width = 256, rt_height = 256, currentLayout = ColorAttachment, texture = 1, readFBO = 0\<rparr>"]
    b c d
  have r2: "presentFrame 1 9 exampleColorAttachment = Inl AssertionFailed" by blast
  from presentFrame_guards [where s = exampleInFrame and image' = 1 and glName = 9 and b = True]
  have "presentFrame 1 9 (exampleInFrame\<lparr>inRenderPass := True\<rparr>) =
     (case presentFrame 1 9 exampleInFrame of Inl e \<Rightarrow> Inl e | Inr s' \<Rightarrow> Inr (s'\<lparr>inRenderPass := True\<rparr>))"
    by blast
  then have r3: "presentFrame 1 9 (exampleInFrame\<lparr>inRenderPass := True\<rparr>) =
     Inr ((examplePresented exampleInFrame)\<lparr>inRenderPass := True\<rparr>)" unfolding e by simp
  show ?thesis by (intro conjI a r1 b c r2 e r3)
qed

text \<open>
  As the claim is written it also requires that no render pass be open.  In the example
  renderer, \<^verbatim>\<open>beginFrame\<close> and \<^verbatim>\<open>beginRenderPass\<close> lead to a state inside a render pass
  in which \<^verbatim>\<open>presentFrame\<close> returns normally.
\<close>

theorem presentFrame_inRenderPass_counterexample:
  "run [BeginFrame, BeginRenderPass 1 1] exampleRenderer = Inr ([None, None], exampleInPass) \<and>
   inFrame exampleInPass \<and> inRenderPass exampleInPass \<and>
   presentFrame 1 9 exampleInPass = Inr (examplePresented exampleInPass) \<and>
   inRenderPass (examplePresented exampleInPass)"
  by code_simp

subsection \<open>Ephemeral buffers over a frame\<close>

lemma createEphemeralBuffer_ephemeralBuffers:
  assumes "createEphemeralBuffer sz contents s = Inr (h, s')"
  shows "ephemeralBuffers s' = ephemeralBuffers s @ [h]"
proof -
  from assms obtain off s1 where a: "ringBufferAllocate sz (max (uboAlign s) (ssboAlign s)) s = Inr (off, s1)"
    and s': "ephemeralBuffers s' = ephemeralBuffers s1 @ [h]"
    by (auto simp: createEphemeralBuffer_def Let_def split: if_splits sum.splits)
  have "ephemeralBuffers s1 = ephemeralBuffers s"
    by (rule ringBufferAllocate_preserves [OF _ _ _ a]) simp_all
  with s' show ?thesis by simp
qed

lemma exec_ephemeralBuffers:
  assumes "exec c s = Inr (r, s')" "\<not> isPresentFrame c"
  shows "ephemeralBuffers s' = ephemeralBuffers s @ ephemeralCreated [c] [r]"
proof (cases c)
  case (CreateEphemeralBuffer sz contents)
  with assms(1) obtain h where h: "createEphemeralBuffer sz contents s = Inr (h, s')" "r = Some h"
    by (auto simp: returning_def split: sum.splits)
  from createEphemeralBuffer_ephemeralBuffers [OF h(1)] h(2) CreateEphemeralBuffer
  show ?thesis by simp
qed (use assms in \<open>auto simp: returning_def returning_void_def createBuffer_def deleteBuffer_def
      beginFrame_def beginRenderPass_def endRenderPass_def setScissorRect_def bindPipeline_def
      draw_def drawIndexedInstanced_def drawIndexedOffset_def Let_def
      split: sum.splits if_splits\<close>)

lemma ephemeralCreated_Cons:
  "ephemeralCreated (c # cs) (r # rs) = ephemeralCreated [c] [r] @ ephemeralCreated cs rs"
  by (cases "(c # cs, r # rs)" rule: ephemeralCreated.cases) auto

lemma run_ephemeralBuffers:
  assumes "run cs s = Inr (rs, s')" "\<forall>c \<in> set cs. \<not> isPresentFrame c"
  shows "ephemeralBuffers s' = ephemeralBuffers s @ ephemeralCreated cs rs"
  using assms
proof (induction cs arbitrary: s rs)
  case Nil
  then show ?case by auto
next
  case (Cons c cs)
  from Cons.prems(1) obtain r s1 rs1 where e: "exec c s = Inr (r, s1)"
    and r: "run cs s1 = Inr (rs1, s')" and rs: "rs = r # rs1"
    by (auto split: sum.splits prod.splits)
  from Cons.prems(2) have c: "\<not> isPresentFrame c" and cs: "\<forall>c \<in> set cs. \<not> isPresentFrame c"
    by simp_all
  from exec_ephemeralBuffers [OF e c] Cons.IH [OF r cs]
  show ?case unfolding rs ephemeralCreated_Cons [of c cs r rs1] by simp
qed

lemma releaseEphemeralBuffers_removed:
  assumes "releaseEphemeralBuffers hs s = Inr s'"
  shows "(\<forall>h \<in> set hs. map_of (resources (buffers s')) h = None) \<and>
         (\<forall>h. map_of (resources (buffers s)) h = None \<longrightarrow> map_of (resources (buffers s')) h = None)"
  using assms
proof (induction hs arbitrary: s)
  case Nil
  then show ?case by simp
next
  case (Cons h hs)
  let ?t = "s\<lparr>buffers := (buffers s)\<lparr>resources := AList.delete h (resources (buffers s))\<rparr>\<rparr>"
  from Cons.prems have r: "releaseEphemeralBuffers hs ?t = Inr s'"
    by (auto simp: container_get_def container_remove_def split: sum.splits if_splits option.splits)
  from Cons.IH [OF r] have a: "\<forall>k \<in> set hs. map_of (resources (buffers s')) k = None"
    and b: "\<forall>k. map_of (resources (buffers ?t)) k = None \<longrightarrow> map_of (resources (buffers s')) k = None"
    by blast+
  have "map_of (resources (buffers ?t)) h = None" by (simp add: delete_conv')
  with b have h: "map_of (resources (buffers s')) h = None" by blast
  have "map_of (resources (buffers s')) k = None" if "map_of (resources (buffers s)) k = None" for k
  proof -
    from that have "map_of (resources (buffers ?t)) k = None" by (simp add: delete_conv')
    with b show ?thesis by blast
  qed
  with a h show ?case by simp
qed

lemma presentFrame_Inr:
  assumes "presentFrame image' glName s = Inr s'"
  shows "\<exists>rt' s2.
           releaseEphemeralBuffers (ephemeralBuffers s)
             (s\<lparr>inFrame := False, renderTargets := container_set image' rt' (renderTargets s)\<rparr>) = Inr s2 \<and>
           s' = s2\<lparr>ephemeralBuffers := []\<rparr>"
  using assms unfolding presentFrame_def Let_def
  by (auto split: if_splits sum.splits)

lemma presentFrame_released:
  assumes "presentFrame image' glName s = Inr s'"
  shows "(\<forall>h \<in> set (ephemeralBuffers s). container_get h (buffers s') = Inl InvalidHandle) \<and>
         ephemeralBuffers s' = [] \<and> \<not> inFrame s'"
proof -
  from presentFrame_Inr [OF assms] obtain rt' s2 where
    r: "releaseEphemeralBuffers (ephemeralBuffers s)
             (s\<lparr>inFrame := False, renderTargets := container_set image' rt' (renderTargets s)\<rparr>) = Inr s2"
    and s': "s' = s2\<lparr>ephemeralBuffers := []\<rparr>" by blast
  from releaseEphemeralBuffers_removed [OF r]
  have "\<forall>h \<in> set (ephemeralBuffers s). map_of (resources (buffers s2)) h = None" by blast
  moreover from releaseEphemeralBuffers_frame [OF r] have "\<not> inFrame s2" by auto
  ultimately show ?thesis by (simp add: s' container_get_def)
qed

text \<open>
  Claim C4.  After \<^verbatim>\<open>presentFrame\<close> returns, every buffer that \<^verbatim>\<open>createEphemeralBuffer\<close>
  created since the previous \<^verbatim>\<open>presentFrame\<close> (or since the renderer was constructed) is
  gone from the buffer registry, the list \<^verbatim>\<open>ephemeralBuffers\<close> is empty, and \<^verbatim>\<open>inFrame\<close>
  is false, so that \<^verbatim>\<open>beginFrame\<close> passes.
\<close>

theorem presentFrame_releases_ephemeral:
  assumes "run cs s0 = Inr (rs, s1)"
    and "\<forall>c \<in> set cs. \<not> isPresentFrame c"
    and "presentFrame image' glName s1 = Inr s2"
  shows "(\<forall>h \<in> set (ephemeralCreated cs rs). container_get h (buffers s2) = Inl InvalidHandle) \<and>
         ephemeralBuffers s2 = [] \<and> \<not> inFrame s2 \<and>
         beginFrame s2 =
           Inr (s2\<lparr>inFrame := True, inRenderPass := False, validPipeline := False,
                   pipelineDrawn := True\<rparr>)"
proof -
  from run_ephemeralBuffers [OF assms(1,2)]
  have "set (ephemeralCreated cs rs) \<subseteq> set (ephemeralBuffers s1)" by simp
  with presentFrame_released [OF assms(3)] show ?thesis
    by (auto simp: beginFrame_def)
qed


theorem presentFrame_releases_ephemeral_witness:
  "run [BeginFrame, CreateEphemeralBuffer 10 (Some ''0123456789''), CreateBuffer 8 None 7,
        CreateEphemeralBuffer 4 (Some ''abcd'')] exampleRenderer =
     Inr ([None, Some 1, Some 2, Some 3], exampleWithBuffers) \<and>
   presentFrame 1 9 exampleWithBuffers =
     Inr ((examplePresented exampleWithBuffers)\<lparr>buffers := exampleStandaloneOnly, ephemeralBuffers := []\<rparr>) \<and>
   container_get 1
     (buffers ((examplePresented exampleWithBuffers)\<lparr>buffers := exampleStandaloneOnly, ephemeralBuffers := []\<rparr>)) =
     Inl InvalidHandle \<and>
   container_get 3
     (buffers ((examplePresented exampleWithBuffers)\<lparr>buffers := exampleStandaloneOnly, ephemeralBuffers := []\<rparr>)) =
     Inl InvalidHandle \<and>
   ephemeralBuffers
     ((examplePresented exampleWithBuffers)\<lparr>buffers := exampleStandaloneOnly, ephemeralBuffers := []\<rparr>) = [] \<and>
   \<not> inFrame
     ((examplePresented exampleWithBuffers)\<lparr>buffers := exampleStandaloneOnly, ephemeralBuffers := []\<rparr>)"
proof -
  let ?cs = "[BeginFrame, CreateEphemeralBuffer 10 (Some ''0123456789''), CreateBuffer 8 None 7,
        CreateEphemeralBuffer 4 (Some ''abcd'')]"
  let ?s2 = "(examplePresented exampleWithBuffers)\<lparr>buffers := exampleStandaloneOnly, ephemeralBuffers := []\<rparr>"
  have a: "run ?cs exampleRenderer = Inr ([None, Some 1, Some 2, Some 3], exampleWithBuffers)"
    by code_simp
  have n: "\<forall>c \<in> set ?cs. \<not> isPresentFrame c" by simp
  have b: "presentFrame 1 9 exampleWithBuffers = Inr ?s2" by code_simp
  have ec: "ephemeralCreated ?cs [None, Some 1, Some 2, Some 3] = [1, 3]" by simp
  from presentFrame_releases_ephemeral [OF a n b]
  have r: "(\<forall>h \<in> set [1, 3]. container_get h (buffers ?s2) = Inl InvalidHandle) \<and>
      ephemeralBuffers ?s2 = [] \<and> \<not> inFrame ?s2"
    unfolding ec by blast
  from r have r1: "container_get 1 (buffers ?s2) = Inl InvalidHandle" by simp
  from r have r3: "container_get 3 (buffers ?s2) = Inl InvalidHandle" by simp
  from r have e: "ephemeralBuffers ?s2 = []" by blast
  from r have f: "\<not> inFrame ?s2" by blast
  show ?thesis by (intro conjI a b r1 r3 e f)
qed

subsection \<open>Deleting buffers\<close>

lemma map_of_in_dom: "map_of xs h = Some b \<Longrightarrow> h \<in> fst ` set xs"
  by (metis map_of_eq_None_iff option.distinct(1))

lemma buffers_ok_add_standalone:
  assumes "buffers_ok s" "\<not> ringBufferAlloc r"
  shows "buffers_ok (s\<lparr>buffers := snd (container_add r (buffers s))\<rparr>)"
proof -
  let ?n = "nextHandle (buffers s)"
  have "h \<noteq> ?n" if "h \<in> set (ephemeralBuffers s)" for h
  proof -
    from assms(1) that obtain b where "map_of (resources (buffers s)) h = Some b"
      by (auto simp: buffers_ok_def split: option.splits)
    then have "h \<in> fst ` set (resources (buffers s))" by (rule map_of_in_dom)
    with assms(1) show ?thesis by (auto simp: buffers_ok_def)
  qed
  with assms(1) show ?thesis
    by (auto simp: buffers_ok_def container_add_def dom_update update_conv' split: option.splits)
qed


lemma buffers_ok_add_ephemeral:
  assumes "buffers_ok s" "ringBufferAlloc r"
  shows "buffers_ok (s\<lparr>buffers := snd (container_add r (buffers s)),
                        ephemeralBuffers := ephemeralBuffers s @ [fst (container_add r (buffers s))]\<rparr>)"
proof -
  let ?n = "nextHandle (buffers s)"
  let ?xs = "resources (buffers s)"
  from assms(1) have f0: "\<forall>k \<in> fst ` set ?xs. k < ?n" by (simp add: buffers_ok_def)
  from assms(1) have r0: "\<forall>k \<in> set (ephemeralBuffers s).
      case map_of ?xs k of None \<Rightarrow> False | Some b \<Rightarrow> ringBufferAlloc b" by (simp add: buffers_ok_def)
  have ne: "k \<noteq> ?n" if "k \<in> set (ephemeralBuffers s)" for k
  proof -
    from r0 that obtain b where "map_of ?xs k = Some b" by (auto split: option.splits)
    then have "k \<in> fst ` set ?xs" by (rule map_of_in_dom)
    with f0 show ?thesis by auto
  qed
  have fresh: "\<forall>k \<in> fst ` set (AList.update ?n r ?xs). k < Suc ?n"
    using f0 by (auto simp: dom_update)
  have reg: "\<forall>k \<in> set (ephemeralBuffers s @ [?n]).
      case map_of (AList.update ?n r ?xs) k of None \<Rightarrow> False | Some b \<Rightarrow> ringBufferAlloc b"
    using r0 ne assms(2) by (simp add: update_conv')
  from fresh reg show ?thesis by (simp add: buffers_ok_def container_add_def)
qed


lemma createEphemeralBuffer_Inr:
  assumes "createEphemeralBuffer sz contents s = Inr (h, s')"
  obtains off s1 where "ringBufferAllocate sz (max (uboAlign s) (ssboAlign s)) s = Inr (off, s1)"
    and "h = fst (container_add
              \<lparr>buffer = ringBuffer s1, ringBufferAlloc = True, beginOffs = off, buf_size = sz\<rparr> (buffers s1))"
    and "s' = s1\<lparr>buffers := snd (container_add
                    \<lparr>buffer = ringBuffer s1, ringBufferAlloc = True, beginOffs = off, buf_size = sz\<rparr> (buffers s1)),
                  ephemeralBuffers := ephemeralBuffers s1 @ [fst (container_add
                    \<lparr>buffer = ringBuffer s1, ringBufferAlloc = True, beginOffs = off, buf_size = sz\<rparr> (buffers s1))]\<rparr>"
proof (cases "ringBufferAllocate sz (max (uboAlign s) (ssboAlign s)) s")
  case (Inl e)
  have "createEphemeralBuffer sz contents s \<noteq> Inr (h, s')"
    unfolding createEphemeralBuffer_def Inl by simp
  with assms show ?thesis by contradiction
next
  case (Inr p)
  obtain off s1 where p: "p = (off, s1)" by (cases p)
  let ?b = "\<lparr>buffer = ringBuffer s1, ringBufferAlloc = True, beginOffs = off, buf_size = sz\<rparr>"
  have c: "createEphemeralBuffer sz contents s =
      (if \<not> sz \<noteq> 0 then Inl AssertionFailed
       else if contents = None then Inl AssertionFailed
       else Inr (fst (container_add ?b (buffers s1)),
                 s1\<lparr>buffers := snd (container_add ?b (buffers s1)),
                    ephemeralBuffers := ephemeralBuffers s1 @ [fst (container_add ?b (buffers s1))]\<rparr>))"
    unfolding createEphemeralBuffer_def Inr p by (simp add: Let_def)
  have g1: "sz \<noteq> 0"
  proof
    assume "sz = 0"
    then have "createEphemeralBuffer sz contents s = Inl AssertionFailed" unfolding c by simp
    with assms show False by simp
  qed
  have g2: "contents \<noteq> None"
  proof
    assume "contents = None"
    then have "createEphemeralBuffer sz contents s = Inl AssertionFailed" unfolding c by simp
    with assms show False by simp
  qed
  have e: "createEphemeralBuffer sz contents s = Inr (fst (container_add ?b (buffers s1)),
                 s1\<lparr>buffers := snd (container_add ?b (buffers s1)),
                    ephemeralBuffers := ephemeralBuffers s1 @ [fst (container_add ?b (buffers s1))]\<rparr>)"
    unfolding c using g1 g2 by (simp only: not_not if_False)
  have "createEphemeralBuffer sz contents s = Inr (h, s')" by (rule assms)
  with e have "(Inr (h, s') :: error + handle \<times> renderer) =
      Inr (fst (container_add ?b (buffers s1)),
                 s1\<lparr>buffers := snd (container_add ?b (buffers s1)),
                    ephemeralBuffers := ephemeralBuffers s1 @ [fst (container_add ?b (buffers s1))]\<rparr>)"
    by (simp only:)
  then have "h = fst (container_add ?b (buffers s1))"
    and "s' = s1\<lparr>buffers := snd (container_add ?b (buffers s1)),
                    ephemeralBuffers := ephemeralBuffers s1 @ [fst (container_add ?b (buffers s1))]\<rparr>"
    by (simp_all only: sum.inject prod.inject)
  with Inr p that show ?thesis by blast
qed


lemma createEphemeralBuffer_buffers_ok:
  assumes "createEphemeralBuffer sz contents s = Inr (h, s')" "buffers_ok s"
  shows "buffers_ok s'"
proof -
  from assms(1) obtain off s1
    where a: "ringBufferAllocate sz (max (uboAlign s) (ssboAlign s)) s = Inr (off, s1)"
    and s': "s' = s1\<lparr>buffers := snd (container_add
                    \<lparr>buffer = ringBuffer s1, ringBufferAlloc = True, beginOffs = off, buf_size = sz\<rparr> (buffers s1)),
                  ephemeralBuffers := ephemeralBuffers s1 @ [fst (container_add
                    \<lparr>buffer = ringBuffer s1, ringBufferAlloc = True, beginOffs = off, buf_size = sz\<rparr> (buffers s1))]\<rparr>"
    by (rule createEphemeralBuffer_Inr)
  have e1: "buffers s1 = buffers s" by (rule ringBufferAllocate_preserves [OF _ _ _ a]) simp_all
  have e2: "ephemeralBuffers s1 = ephemeralBuffers s"
    by (rule ringBufferAllocate_preserves [OF _ _ _ a]) simp_all
  have ok1: "buffers_ok s1" using assms(2) by (simp add: buffers_ok_def e1 e2)
  have al: "ringBufferAlloc \<lparr>buffer = ringBuffer s1, ringBufferAlloc = True, beginOffs = off, buf_size = sz\<rparr>"
    by simp
  show ?thesis unfolding s' by (rule buffers_ok_add_ephemeral [OF ok1 al])
qed

lemma deleteBuffer_buffers_ok:
  assumes "deleteBuffer h s = Inr s'" "buffers_ok s"
  shows "buffers_ok s'"
proof -
  from assms(1) obtain b where b: "map_of (resources (buffers s)) h = Some b" "\<not> ringBufferAlloc b"
    and s': "s' = s\<lparr>buffers := (buffers s)\<lparr>resources := AList.delete h (resources (buffers s))\<rparr>\<rparr>"
    by (auto simp: deleteBuffer_def container_get_def container_remove_def
        split: if_splits sum.splits option.splits)
  have "k \<noteq> h" if "k \<in> set (ephemeralBuffers s)" for k
    using assms(2) that b by (auto simp: buffers_ok_def split: option.splits)
  with assms(2) show ?thesis unfolding s'
  proof -
    assume ne: "\<And>k. k \<in> set (ephemeralBuffers s) \<Longrightarrow> k \<noteq> h"
    have fresh: "\<forall>k \<in> fst ` set (AList.delete h (resources (buffers s))). k < nextHandle (buffers s)"
    proof -
      from assms(2) have "\<forall>k \<in> fst ` set (resources (buffers s)). k < nextHandle (buffers s)"
        by (simp add: buffers_ok_def)
      with dom_delete_subset [of h "resources (buffers s)"] show ?thesis by blast
    qed
    have reg: "\<forall>k \<in> set (ephemeralBuffers s).
        case map_of (AList.delete h (resources (buffers s))) k of None \<Rightarrow> False | Some b \<Rightarrow> ringBufferAlloc b"
      using assms(2) ne by (simp add: buffers_ok_def)
    from fresh reg show "buffers_ok (s\<lparr>buffers := (buffers s)\<lparr>resources := AList.delete h (resources (buffers s))\<rparr>\<rparr>)"
      by (simp add: buffers_ok_def)
  qed
qed

lemma exec_buffers_unchanged:
  assumes "exec c s = Inr (r, s')"
    and "c = BeginFrame \<or> (\<exists>rp fb. c = BeginRenderPass rp fb) \<or> c = EndRenderPass \<or>
         (\<exists>x y w h. c = SetScissorRect x y w h) \<or> (\<exists>p. c = BindPipeline p) \<or> isDraw c"
  shows "buffers s' = buffers s \<and> ephemeralBuffers s' = ephemeralBuffers s"
  using assms
  by (cases c)
    (auto simp: returning_void_def
      beginFrame_def beginRenderPass_def endRenderPass_def setScissorRect_def bindPipeline_def
      draw_def drawIndexedInstanced_def drawIndexedOffset_def Let_def
      split: sum.splits if_splits)

lemma exec_unchanged_buffers_ok:
  assumes "exec c s = Inr (r, s')" "buffers_ok s"
    and "c = BeginFrame \<or> (\<exists>rp fb. c = BeginRenderPass rp fb) \<or> c = EndRenderPass \<or>
         (\<exists>x y w h. c = SetScissorRect x y w h) \<or> (\<exists>p. c = BindPipeline p) \<or> isDraw c"
  shows "buffers_ok s'"
proof -
  from exec_buffers_unchanged [OF assms(1,3)]
  have e1: "buffers s' = buffers s" and e2: "ephemeralBuffers s' = ephemeralBuffers s" by simp_all
  show ?thesis using assms(2) by (simp add: buffers_ok_def e1 e2)
qed

lemma createBuffer_buffers_ok:
  assumes "createBuffer sz contents glName s = Inr (h, s')" "buffers_ok s"
  shows "buffers_ok s'"
proof -
  let ?b = "\<lparr>buffer = glName, ringBufferAlloc = False, beginOffs = 0, buf_size = sz\<rparr>"
  have "createBuffer sz contents glName s \<noteq> Inr (h, s')" if "sz = 0"
    using that by (simp add: createBuffer_def)
  with assms(1) have "sz \<noteq> 0" by blast
  then have "createBuffer sz contents glName s =
      Inr (fst (container_add ?b (buffers s)), s\<lparr>buffers := snd (container_add ?b (buffers s))\<rparr>)"
    by (simp add: createBuffer_def Let_def)
  with assms(1) have "(Inr (h, s') :: error + handle \<times> renderer) =
      Inr (fst (container_add ?b (buffers s)), s\<lparr>buffers := snd (container_add ?b (buffers s))\<rparr>)"
    by (simp only:)
  then have s': "s' = s\<lparr>buffers := snd (container_add ?b (buffers s))\<rparr>"
    by (simp only: sum.inject prod.inject)
  have nr: "\<not> ringBufferAlloc ?b" by simp
  show ?thesis unfolding s' by (rule buffers_ok_add_standalone [OF assms(2) nr])
qed

lemma returning_Inr: "returning x = Inr (r, s') \<Longrightarrow> \<exists>h. x = Inr (h, s') \<and> r = Some h"
  by (cases x) (auto simp: returning_def)

lemma returning_void_Inr: "returning_void x = Inr (r, s') \<Longrightarrow> x = Inr s' \<and> r = None"
  by (cases x) (auto simp: returning_void_def)

lemma exec_buffers_ok:
  assumes e: "exec c s = Inr (r, s')" and np: "\<not> isPresentFrame c" and ok: "buffers_ok s"
  shows "buffers_ok s'"
proof (cases c)
  case (CreateBuffer sz contents glName)
  with e have "returning (createBuffer sz contents glName s) = Inr (r, s')" by simp
  from returning_Inr [OF this] obtain h where "createBuffer sz contents glName s = Inr (h, s')" by blast
  from createBuffer_buffers_ok [OF this ok] show ?thesis .
next
  case (CreateEphemeralBuffer sz contents)
  with e have "returning (createEphemeralBuffer sz contents s) = Inr (r, s')" by simp
  from returning_Inr [OF this] obtain h where "createEphemeralBuffer sz contents s = Inr (h, s')" by blast
  from createEphemeralBuffer_buffers_ok [OF this ok] show ?thesis .
next
  case (DeleteBuffer h)
  with e have "returning_void (deleteBuffer h s) = Inr (r, s')" by simp
  from returning_void_Inr [OF this] have "deleteBuffer h s = Inr s'" by blast
  from deleteBuffer_buffers_ok [OF this ok] show ?thesis .
next
  case BeginFrame
  then show ?thesis using exec_unchanged_buffers_ok [OF e ok] by blast
next
  case (PresentFrame image' glName)
  with np show ?thesis by simp
next
  case (BeginRenderPass rp fb)
  then show ?thesis using exec_unchanged_buffers_ok [OF e ok] by blast
next
  case EndRenderPass
  then show ?thesis using exec_unchanged_buffers_ok [OF e ok] by blast
next
  case (SetScissorRect x y w h)
  then show ?thesis using exec_unchanged_buffers_ok [OF e ok] by blast
next
  case (BindPipeline p)
  then show ?thesis using exec_unchanged_buffers_ok [OF e ok] by blast
next
  case (Draw firstVertex vertexCount)
  then have "isDraw c" by simp
  then show ?thesis using exec_unchanged_buffers_ok [OF e ok] by blast
next
  case (DrawIndexedInstanced vertexCount instanceCount)
  then have "isDraw c" by simp
  then show ?thesis using exec_unchanged_buffers_ok [OF e ok] by blast
next
  case (DrawIndexedOffset vertexCount firstIndex)
  then have "isDraw c" by simp
  then show ?thesis using exec_unchanged_buffers_ok [OF e ok] by blast
qed

lemma run_buffers_ok:
  assumes "run cs s = Inr (rs, s')" "\<forall>c \<in> set cs. \<not> isPresentFrame c" "buffers_ok s"
  shows "buffers_ok s'"
  using assms
proof (induction cs arbitrary: s rs)
  case Nil
  then show ?case by simp
next
  case (Cons c cs)
  from Cons.prems(1) obtain r s1 rs1 where e: "exec c s = Inr (r, s1)" and r: "run cs s1 = Inr (rs1, s')"
    by (auto split: sum.splits prod.splits)
  from Cons.prems(2) have c: "\<not> isPresentFrame c" and cs: "\<forall>c \<in> set cs. \<not> isPresentFrame c"
    by simp_all
  from exec_buffers_ok [OF e c Cons.prems(3)] have "buffers_ok s1" .
  from Cons.IH [OF r cs this] show ?case .
qed

lemma deleteBuffer_ringBufferAlloc:
  assumes "container_get h (buffers s) = Inr b" "ringBufferAlloc b"
  shows "deleteBuffer h s = Inl AssertionFailed"
  using assms by (simp add: deleteBuffer_def)

text \<open>
  Claim C10.  \<^verbatim>\<open>deleteBuffer\<close> is for standalone buffers only.  On a handle that
  \<^verbatim>\<open>createEphemeralBuffer\<close> returned and that no \<^verbatim>\<open>presentFrame\<close> has released since, it
  fails an assertion: the buffer is still registered as a ring buffer allocation, which
  the cleanup callback asserts it is not.  A \<^verbatim>\<open>deleteBuffer\<close> that returns has removed a
  buffer that is not a ring buffer allocation, so that only \<^verbatim>\<open>presentFrame\<close> releases
  ephemeral buffers.
\<close>

theorem deleteBuffer_ephemeral_asserts:
  assumes "buffers_ok s0"
    and "run cs s0 = Inr (rs, s1)"
    and "\<forall>c \<in> set cs. \<not> isPresentFrame c"
    and "h \<in> set (ephemeralCreated cs rs)"
  shows "deleteBuffer h s1 = Inl AssertionFailed \<and>
         (\<exists>b. container_get h (buffers s1) = Inr b \<and> ringBufferAlloc b) \<and>
         (\<forall>k s2. deleteBuffer k s1 = Inr s2 \<longrightarrow>
            (\<exists>b. container_get k (buffers s1) = Inr b \<and> \<not> ringBufferAlloc b))"
proof -
  from run_buffers_ok [OF assms(2,3,1)] have ok: "buffers_ok s1" .
  from run_ephemeralBuffers [OF assms(2,3)] assms(4) have "h \<in> set (ephemeralBuffers s1)" by simp
  with ok obtain b where b: "container_get h (buffers s1) = Inr b" "ringBufferAlloc b"
    by (auto simp: buffers_ok_def container_get_def split: option.splits)
  from deleteBuffer_ringBufferAlloc [OF b] have d: "deleteBuffer h s1 = Inl AssertionFailed" .
  have "\<exists>b. container_get k (buffers s1) = Inr b \<and> \<not> ringBufferAlloc b" if "deleteBuffer k s1 = Inr s2" for k s2
    using that by (auto simp: deleteBuffer_def split: sum.splits if_splits)
  with d b show ?thesis by blast
qed


theorem deleteBuffer_ephemeral_asserts_witness:
  "buffers_ok exampleRenderer \<and>
   run [BeginFrame, CreateEphemeralBuffer 10 (Some ''0123456789''), CreateBuffer 8 None 7,
        CreateEphemeralBuffer 4 (Some ''abcd'')] exampleRenderer =
     Inr ([None, Some 1, Some 2, Some 3], exampleWithBuffers) \<and>
   deleteBuffer 3 exampleWithBuffers = Inl AssertionFailed \<and>
   container_get 3 (buffers exampleWithBuffers) =
     Inr \<lparr>buffer = 1, ringBufferAlloc = True, beginOffs = 16, buf_size = 4\<rparr> \<and>
   deleteBuffer 2 exampleWithBuffers =
     Inr (exampleWithBuffers\<lparr>buffers :=
       \<lparr>resources =
          [(1, \<lparr>buffer = 1, ringBufferAlloc = True, beginOffs = 0, buf_size = 10\<rparr>),
           (3, \<lparr>buffer = 1, ringBufferAlloc = True, beginOffs = 16, buf_size = 4\<rparr>)],
        nextHandle = 4\<rparr>\<rparr>)"
proof -
  let ?cs = "[BeginFrame, CreateEphemeralBuffer 10 (Some ''0123456789''), CreateBuffer 8 None 7,
        CreateEphemeralBuffer 4 (Some ''abcd'')]"
  have ok: "buffers_ok exampleRenderer"
    by (simp add: buffers_ok_def exampleRenderer_def container_empty_def)
  have a: "run ?cs exampleRenderer = Inr ([None, Some 1, Some 2, Some 3], exampleWithBuffers)"
    by code_simp
  have n: "\<forall>c \<in> set ?cs. \<not> isPresentFrame c" by simp
  have m: "3 \<in> set (ephemeralCreated ?cs [None, Some 1, Some 2, Some 3])" by simp
  from deleteBuffer_ephemeral_asserts [OF ok a n m]
  have d: "deleteBuffer 3 exampleWithBuffers = Inl AssertionFailed" by blast
  have g: "container_get 3 (buffers exampleWithBuffers) =
     Inr \<lparr>buffer = 1, ringBufferAlloc = True, beginOffs = 16, buf_size = 4\<rparr>" by code_simp
  have d2: "deleteBuffer 2 exampleWithBuffers =
     Inr (exampleWithBuffers\<lparr>buffers :=
       \<lparr>resources =
          [(1, \<lparr>buffer = 1, ringBufferAlloc = True, beginOffs = 0, buf_size = 10\<rparr>),
           (3, \<lparr>buffer = 1, ringBufferAlloc = True, beginOffs = 16, buf_size = 4\<rparr>)],
        nextHandle = 4\<rparr>\<rparr>)" by code_simp
  show ?thesis by (intro conjI ok a d g d2)
qed

section \<open>Verification: pipeline creation\<close>






text \<open>When the program does not link, the same lines are logged before the info log of the
  driver, and the call throws.\<close>

lemma createPipeline_link_failure_example:
  "createPipeline 2 exampleNewPipelineDesc 12 False ''link failed'' exampleWithLayout =
     ([DoesNotMatchLayout 0 1 Sampler ''example.vert'' Texture,
       GreaterThanSetSize 1 0 Texture ''example.frag'' 0,
       InfoLog ''link failed''],
      Inl RuntimeError)"
  by code_simp

end
